theory Spec2Isabelle
  imports Complex_Main
begin

section \<open>Reward table and draw (rewards.ts)\<close>

text \<open>
  The draw is given twice. \<open>normalizeWeights\<close>, \<open>chooseLoop\<close> and \<open>choosePrize\<close> of
  this section compute in exact real arithmetic; \<open>normalizeWeights64\<close>, \<open>chooseLoop64\<close>
  and \<open>choosePrize64\<close> of the next section compute in binary64 arithmetic, as the program
  does. Lemma \<open>choosePrize64_agrees\<close> shows that the two draws return the same outcome at
  every binary64 variate of \<open>[0,1)\<close>, the values of \<open>Math.random()\<close>; the handlers
  below are stated with \<open>choosePrize\<close>.
  \<open>LAMPORTS_PER_SOL\<close> is the constant of \<open>@solana/web3.js\<close>.
\<close>

definition LAMPORTS_PER_SOL :: real where
  "LAMPORTS_PER_SOL = 1000000000"

datatype PrizeKind =
    NOTHING
  | NFT string
  | SOL real string

record 'a Weighted =
  weight :: real
  item :: 'a

text \<open>
  \<open>normalizeWeights\<close>: \<open>reduce\<close> from the left starting at 0, then \<open>map\<close>. An entry
  \<open>{p, item}\<close> of the result is the pair \<open>(p, item)\<close>.
\<close>

definition normalizeWeights :: "'a Weighted list \<Rightarrow> (real \<times> 'a) list" where
  "normalizeWeights items =
     (let total = foldl (\<lambda>s x. s + weight x) 0 items
      in map (\<lambda>x. (weight x / total, item x)) items)"

definition PRIZES :: "PrizeKind Weighted list" where
  "PRIZES =
     [ \<lparr> weight = 864 / 10, item = NOTHING \<rparr>,
       \<lparr> weight = 125 / 10, item = NFT ''Elementals NFT'' \<rparr>,
       \<lparr> weight = 1, item = SOL (5 / 10 * LAMPORTS_PER_SOL) ''0.5 SOL'' \<rparr>,
       \<lparr> weight = 1 / 10, item = SOL (25 / 10 * LAMPORTS_PER_SOL) ''2.5 SOL'' \<rparr> ]"

text \<open>
  The \<open>for\<close> loop of \<open>choosePrize\<close>: \<open>Some item\<close> is the \<open>return item\<close> inside the
  loop, \<open>None\<close> is leaving the loop with no entry taken.
\<close>

fun chooseLoop :: "(real \<times> 'a) list \<Rightarrow> real \<Rightarrow> 'a option" where
  "chooseLoop [] r = None"
| "chooseLoop ((p, it) # rest) r = (if r < p then Some it else chooseLoop rest (r - p))"

text \<open>\<open>choosePrize\<close>, with the value of \<open>Math.random()\<close> as its argument.\<close>

definition choosePrize :: "real \<Rightarrow> PrizeKind" where
  "choosePrize r =
     (case chooseLoop (normalizeWeights PRIZES) r of
        Some it \<Rightarrow> it
      | None \<Rightarrow> NOTHING)"

section \<open>Double-precision arithmetic (the numbers of rewards.ts)\<close>

text \<open>
  The weights and probabilities of rewards.ts are JavaScript numbers: IEEE 754 binary64
  values, where every sum, difference and quotient is rounded to the nearest value, ties
  to even. A finite number is modelled by the real it denotes, and \<open>fl64 x\<close> is the
  binary64 value nearest to the real \<open>x\<close>, with the exponent not bounded above: \<open>box\<close>
  turns a rounded magnitude of \<open>2 ^ 1024\<close> or more into an infinity. The negative zero
  is identified with zero: the total of \<open>normalizeWeights\<close> starts from the positive zero
  and so is never the negative one, and no other operation used here tells them apart.

  \<open>scale_exp n x\<close> is the binary exponent of a positive \<open>x\<close>, found in at most \<open>n\<close>
  halvings or doublings. The 2200 steps of \<open>ilog2\<close> reach every exponent between the smallest
  subnormal and the overflow threshold; beyond them the rounded value is zero or an overflow
  whatever the exponent.
\<close>

fun scale_exp :: "nat \<Rightarrow> real \<Rightarrow> int" where
  "scale_exp 0 x = 0"
| "scale_exp (Suc n) x =
     (if 2 \<le> x then scale_exp n (x / 2) + 1
      else if x < 1 then scale_exp n (2 * x) - 1
      else 0)"

definition ilog2 :: "real \<Rightarrow> int" where
  "ilog2 x = scale_exp 2200 \<bar>x\<bar>"

text \<open>Rounding to the nearest integer, ties to the even one.\<close>

definition round_half_even :: "real \<Rightarrow> int" where
  "round_half_even y =
     (let f = \<lfloor>y\<rfloor>; d = y - of_int f
      in if d < 1 / 2 then f
         else if 1 / 2 < d then f + 1
         else if even f then f else f + 1)"

text \<open>
  The exponent of the unit in the last place: 52 below the binary exponent, and never below
  \<open>- 1074\<close>, the exponent of the subnormal numbers.
\<close>

definition ulp_exp :: "real \<Rightarrow> int" where
  "ulp_exp x = max (ilog2 x - 52) (- 1074)"

definition fl64 :: "real \<Rightarrow> real" where
  "fl64 x =
     (if x = 0 then 0
      else of_int (round_half_even (x / 2 powi ulp_exp x)) * 2 powi ulp_exp x)"

text \<open>The reals that are finite binary64 values.\<close>

definition is_double :: "real \<Rightarrow> bool" where
  "is_double x \<longleftrightarrow> fl64 x = x \<and> \<bar>x\<bar> < 2 ^ 1024"

text \<open>A JavaScript number.\<close>

datatype number = Fin real | PInf | NInf | NaN

text \<open>
  The number that a real denotes once rounded. A numeric literal of the source denotes
  \<open>box\<close> of its decimal value.
\<close>

definition box :: "real \<Rightarrow> number" where
  "box x =
     (let y = fl64 x
      in if 2 ^ 1024 \<le> y then PInf
         else if y \<le> - (2 ^ 1024) then NInf
         else Fin y)"

text \<open>The operators \<open>+\<close>, \<open>-\<close>, \<open>/\<close> and \<open><\<close> on numbers.\<close>

fun js_neg :: "number \<Rightarrow> number" where
  "js_neg (Fin a) = Fin (- a)"
| "js_neg PInf = NInf"
| "js_neg NInf = PInf"
| "js_neg NaN = NaN"

fun js_add :: "number \<Rightarrow> number \<Rightarrow> number" where
  "js_add (Fin a) (Fin b) = box (a + b)"
| "js_add NaN y = NaN"
| "js_add x NaN = NaN"
| "js_add PInf NInf = NaN"
| "js_add NInf PInf = NaN"
| "js_add PInf y = PInf"
| "js_add x PInf = PInf"
| "js_add NInf y = NInf"
| "js_add x NInf = NInf"

definition js_sub :: "number \<Rightarrow> number \<Rightarrow> number" where
  "js_sub x y = js_add x (js_neg y)"

fun js_div :: "number \<Rightarrow> number \<Rightarrow> number" where
  "js_div (Fin a) (Fin b) =
     (if b = 0 then (if a = 0 then NaN else if 0 < a then PInf else NInf)
      else box (a / b))"
| "js_div NaN y = NaN"
| "js_div x NaN = NaN"
| "js_div (Fin a) PInf = Fin 0"
| "js_div (Fin a) NInf = Fin 0"
| "js_div PInf (Fin b) = (if 0 \<le> b then PInf else NInf)"
| "js_div NInf (Fin b) = (if 0 \<le> b then NInf else PInf)"
| "js_div x y = NaN"

fun js_lt :: "number \<Rightarrow> number \<Rightarrow> bool" where
  "js_lt (Fin a) (Fin b) = (a < b)"
| "js_lt NaN y = False"
| "js_lt x NaN = False"
| "js_lt x NInf = False"
| "js_lt PInf y = False"
| "js_lt NInf y = True"
| "js_lt x PInf = True"

text \<open>
  \<open>normalizeWeights\<close> as it runs: \<open>reduce\<close> adds the weights from the left starting at 0,
  then every weight is divided by the total.
\<close>

definition normalizeWeights64 :: "'a Weighted list \<Rightarrow> (number \<times> 'a) list" where
  "normalizeWeights64 items =
     (let total = foldl (\<lambda>s x. js_add s (box (weight x))) (Fin 0) items
      in map (\<lambda>x. (js_div (box (weight x)) total, item x)) items)"

text \<open>
  The loop of \<open>choosePrize\<close> as it runs: \<open>r -= p\<close> is a rounded subtraction. \<open>None\<close> is
  leaving the loop with no entry taken, which \<open>choosePrize64\<close> answers with
  \<open>{ kind: 'NOTHING' }\<close>.
\<close>

fun chooseLoop64 :: "(number \<times> 'a) list \<Rightarrow> number \<Rightarrow> 'a option" where
  "chooseLoop64 [] r = None"
| "chooseLoop64 ((p, it) # rest) r =
     (if js_lt r p then Some it else chooseLoop64 rest (js_sub r p))"

definition choosePrize64 :: "real \<Rightarrow> PrizeKind" where
  "choosePrize64 r =
     (case chooseLoop64 (normalizeWeights64 PRIZES) (box r) of
        Some it \<Rightarrow> it
      | None \<Rightarrow> NOTHING)"

section \<open>Configuration (index.ts, EnvSchema)\<close>

text \<open>
  The fields of \<open>ENV\<close> that the modelled functions read. \<open>COOLDOWN_HOURS\<close> is taken as
  a whole number of hours (its default is 24), so that every time is a whole number of
  milliseconds.
\<close>

record Env =
  TREASURY_WALLET :: string
  PRIZE_COLLECTION_ADDRESS :: string
  OPEN_FEE_LAMPORTS :: int
  COOLDOWN_HOURS :: int

definition COOLDOWN_MS :: "Env \<Rightarrow> int" where
  "COOLDOWN_MS env = COOLDOWN_HOURS env * 60 * 60 * 1000"

definition HOLDER_LIMIT :: int where
  "HOLDER_LIMIT = 1"

definition SUPER_HOLDER_LIMIT :: int where
  "SUPER_HOLDER_LIMIT = 2"

definition SUPER_HOLDER_THRESHOLD :: int where
  "SUPER_HOLDER_THRESHOLD = 10"

definition openKey :: "string \<Rightarrow> string" where
  "openKey owner = ''opens:'' @ owner"

definition sigKey :: "string \<Rightarrow> string" where
  "sigKey sig = ''sig:'' @ sig"

section \<open>The Redis store\<close>

text \<open>
  The store holds sorted sets (under the keys \<open>opens:...\<close>) and strings (under the keys
  \<open>sig:...\<close>); the two prefixes keep the two kinds of keys apart, so each kind has its own
  map. A key carries its content and the instant (in milliseconds) at which it expires, if
  it has a time to live. A sorted set is the list of its \<open>(member, score)\<close> pairs, with no
  member twice. Every command takes the instant \<open>t\<close> at which the server runs it: a key
  whose expiry instant has been reached is absent for the command. The store is used by one
  request at a time and its commands do not fail.
\<close>

record 'v Keyed =
  content :: 'v
  expireAt :: "int option"

record Redis =
  zsets :: "string \<Rightarrow> (string \<times> int) list Keyed option"
  strings :: "string \<Rightarrow> string Keyed option"

definition live :: "int \<Rightarrow> 'v Keyed option \<Rightarrow> 'v Keyed option" where
  "live t k =
     (case k of
        None \<Rightarrow> None
      | Some e \<Rightarrow>
          (case expireAt e of
             None \<Rightarrow> Some e
           | Some x \<Rightarrow> if x \<le> t then None else Some e))"

text \<open>\<open>ZREMRANGEBYSCORE key lo hi\<close>; a sorted set left empty is deleted.\<close>

definition zremrangebyscore :: "Redis \<Rightarrow> string \<Rightarrow> int \<Rightarrow> int \<Rightarrow> int \<Rightarrow> Redis" where
  "zremrangebyscore R key lo hi t =
     (case live t (zsets R key) of
        None \<Rightarrow> R
      | Some e \<Rightarrow>
          (let kept = filter (\<lambda>(m, s). \<not> (lo \<le> s \<and> s \<le> hi)) (content e)
           in R\<lparr>zsets := (zsets R)
                  (key := if kept = [] then None else Some (e\<lparr>content := kept\<rparr>))\<rparr>))"

definition zcard :: "Redis \<Rightarrow> string \<Rightarrow> int \<Rightarrow> int" where
  "zcard R key t =
     (case live t (zsets R key) of
        None \<Rightarrow> 0
      | Some e \<Rightarrow> int (length (content e)))"

text \<open>\<open>EXPIRE key seconds\<close>: nothing happens to an absent key.\<close>

definition expire :: "Redis \<Rightarrow> string \<Rightarrow> int \<Rightarrow> int \<Rightarrow> Redis" where
  "expire R key seconds t =
     (case live t (zsets R key) of
        None \<Rightarrow> R
      | Some e \<Rightarrow> R\<lparr>zsets := (zsets R)(key \<mapsto> e\<lparr>expireAt := Some (t + seconds * 1000)\<rparr>)\<rparr>)"

fun min_score :: "(string \<times> int) list \<Rightarrow> int option" where
  "min_score [] = None"
| "min_score ((m, s) # es) =
     (case min_score es of
        None \<Rightarrow> Some s
      | Some s' \<Rightarrow> Some (min s s'))"

text \<open>
  \<open>ZRANGE key 0 0 WITHSCORES\<close>, as the code reads it: \<open>Some s\<close> is the two-element reply
  \<open>[member, score]\<close> of the entry with the lowest score, with \<open>parseInt\<close> applied to the
  score; \<open>None\<close> is the empty reply.
\<close>

definition zrange_oldest :: "Redis \<Rightarrow> string \<Rightarrow> int \<Rightarrow> int option" where
  "zrange_oldest R key t =
     (case live t (zsets R key) of
        None \<Rightarrow> None
      | Some e \<Rightarrow> min_score (content e))"

text \<open>\<open>ZADD key score member\<close>: a member already present takes the new score.\<close>

definition zadd :: "Redis \<Rightarrow> string \<Rightarrow> int \<Rightarrow> string \<Rightarrow> int \<Rightarrow> Redis" where
  "zadd R key score member t =
     (case live t (zsets R key) of
        None \<Rightarrow>
          R\<lparr>zsets := (zsets R)(key \<mapsto> \<lparr>content = [(member, score)], expireAt = None\<rparr>)\<rparr>
      | Some e \<Rightarrow>
          R\<lparr>zsets := (zsets R)
               (key \<mapsto> e\<lparr>content := (member, score) # filter (\<lambda>(m, s). m \<noteq> member) (content e)\<rparr>)\<rparr>)"

definition redis_get :: "Redis \<Rightarrow> string \<Rightarrow> int \<Rightarrow> string option" where
  "redis_get R key t =
     (case live t (strings R key) of
        None \<Rightarrow> None
      | Some e \<Rightarrow> Some (content e))"

text \<open>\<open>SET key value EX seconds\<close>.\<close>

definition redis_set_ex :: "Redis \<Rightarrow> string \<Rightarrow> string \<Rightarrow> int \<Rightarrow> int \<Rightarrow> Redis" where
  "redis_set_ex R key v seconds t =
     R\<lparr>strings := (strings R)(key \<mapsto> \<lparr>content = v, expireAt = Some (t + seconds * 1000)\<rparr>)\<rparr>"

definition empty_redis :: Redis where
  "empty_redis = \<lparr>zsets = (\<lambda>k. None), strings = (\<lambda>k. None)\<rparr>"

section \<open>Admission window (index.ts)\<close>

record Opens =
  remaining :: int
  used :: int
  limit :: int
  cooldownMs :: int

text \<open>\<open>Math.ceil(a / b)\<close> for a positive whole \<open>b\<close>.\<close>

definition ceil_div :: "int \<Rightarrow> int \<Rightarrow> int" where
  "ceil_div a b = - ((- a) div b)"

text \<open>
  \<open>getOpensRemaining\<close>, with the value \<open>now\<close> of \<open>nowMs()\<close> as an argument; the store
  commands of one call run at that instant. It returns its result and the store it leaves.
\<close>

definition getOpensRemaining ::
  "Env \<Rightarrow> Redis \<Rightarrow> string \<Rightarrow> int \<Rightarrow> bool \<Rightarrow> int \<Rightarrow> Opens \<times> Redis" where
  "getOpensRemaining env R owner holderCount isTokenHolder now =
     (let key = openKey owner;
          cutoff = now - COOLDOWN_MS env;
          R1 = zremrangebyscore R key 0 cutoff now;
          used' = zcard R1 key now;
          limit' = (if holderCount \<ge> SUPER_HOLDER_THRESHOLD then SUPER_HOLDER_LIMIT
                    else if holderCount > 0 \<or> isTokenHolder then HOLDER_LIMIT else 0);
          remaining' = max 0 (limit' - used');
          R2 = expire R1 key (ceil_div (COOLDOWN_MS env) 1000) now;
          cooldownMs' =
            (if remaining' = 0 then
               (case zrange_oldest R2 key now of
                  Some oldestTimestamp \<Rightarrow> max 0 (COOLDOWN_MS env - (now - oldestTimestamp))
                | None \<Rightarrow> COOLDOWN_MS env)
             else 0)
      in (\<lparr>remaining = remaining', used = used', limit = limit', cooldownMs = cooldownMs'\<rparr>,
          R2))"

text \<open>\<open>recordOpen\<close>, with the values of \<open>nowMs()\<close> and \<open>uuidv4()\<close> as arguments.\<close>

definition recordOpen :: "Env \<Rightarrow> Redis \<Rightarrow> string \<Rightarrow> int \<Rightarrow> string \<Rightarrow> Redis" where
  "recordOpen env R owner now uuid =
     (let key = openKey owner;
          R1 = zadd R key now uuid now
      in expire R1 key (ceil_div (COOLDOWN_MS env) 1000) now)"

text \<open>\<open>Boolean(exists)\<close>: a missing key gives \<open>null\<close>, an empty string is falsy too.\<close>

definition hasUsedSignature :: "Redis \<Rightarrow> string \<Rightarrow> int \<Rightarrow> bool" where
  "hasUsedSignature R signature t =
     (case redis_get R (sigKey signature) t of
        None \<Rightarrow> False
      | Some v \<Rightarrow> v \<noteq> [])"

definition markSignatureUsed :: "Redis \<Rightarrow> string \<Rightarrow> int \<Rightarrow> Redis" where
  "markSignatureUsed R signature t =
     redis_set_ex R (sigKey signature) ''1'' (7 * 24 * 60 * 60) t"

section \<open>Payment verification (index.ts)\<close>

text \<open>
  What \<open>connection.getTransaction\<close> answers: it throws, or finds nothing, or returns the
  transaction. \<open>staticAccountKeys\<close> is \<open>Inl\<close> when \<open>getAccountKeys()\<close> throws. Account
  keys are compared as their base58 strings.
\<close>

record TxMeta =
  metaErr :: bool
  preBalances :: "int list"
  postBalances :: "int list"

record LedgerTx =
  meta :: "TxMeta option"
  staticAccountKeys :: "string + string list"
  tx_slot :: int
  tx_blockTime :: "int option"

datatype TxFetch = FetchThrows string | TxMissing | TxFound LedgerTx

text \<open>A \<open>lamportsToTreasury\<close> of \<open>None\<close> is JavaScript's \<open>NaN\<close>.\<close>

record PaymentCheck =
  ok :: bool
  lamportsToTreasury :: "int option"
  slot :: "int option"
  blockTime :: "int option"
  err :: "string option"

fun findIndex :: "('a \<Rightarrow> bool) \<Rightarrow> 'a list \<Rightarrow> int" where
  "findIndex P [] = - 1"
| "findIndex P (x # xs) =
     (if P x then 0 else (let i = findIndex P xs in if i = - 1 then - 1 else i + 1))"

text \<open>An array read: \<open>None\<close> is \<open>undefined\<close>.\<close>

definition at_index :: "'a list \<Rightarrow> int \<Rightarrow> 'a option" where
  "at_index xs i = (if 0 \<le> i \<and> i < int (length xs) then Some (xs ! nat i) else None)"

text \<open>Subtraction and \<open>\<ge>\<close> where an operand may be \<open>undefined\<close> or \<open>NaN\<close>.\<close>

definition js_minus :: "int option \<Rightarrow> int option \<Rightarrow> int option" where
  "js_minus a b = (case (a, b) of (Some x, Some y) \<Rightarrow> Some (x - y) | _ \<Rightarrow> None)"

definition js_ge :: "int option \<Rightarrow> int \<Rightarrow> bool" where
  "js_ge a b = (case a of Some x \<Rightarrow> x \<ge> b | None \<Rightarrow> False)"

definition verifyPaymentSignature :: "Env \<Rightarrow> TxFetch \<Rightarrow> string \<Rightarrow> int \<Rightarrow> PaymentCheck" where
  "verifyPaymentSignature env fetch payer minLamports =
     (case fetch of
        FetchThrows msg \<Rightarrow>
          \<lparr>ok = False, lamportsToTreasury = Some 0, slot = None, blockTime = None,
           err = Some msg\<rparr>
      | TxMissing \<Rightarrow>
          \<lparr>ok = False, lamportsToTreasury = Some 0, slot = None, blockTime = None,
           err = Some ''Transaction not found or not confirmed''\<rparr>
      | TxFound tx \<Rightarrow>
          if (case meta tx of Some m \<Rightarrow> metaErr m | None \<Rightarrow> False) then
            \<lparr>ok = False, lamportsToTreasury = Some 0, slot = Some (tx_slot tx),
             blockTime = tx_blockTime tx, err = Some ''Transaction has error''\<rparr>
          else
            (case staticAccountKeys tx of
               Inl msg \<Rightarrow>
                 \<lparr>ok = False, lamportsToTreasury = Some 0, slot = None, blockTime = None,
                  err = Some msg\<rparr>
             | Inr keys \<Rightarrow>
                 (let payerIndex = findIndex (\<lambda>k. k = payer) keys;
                      treasuryIndex = findIndex (\<lambda>k. k = TREASURY_WALLET env) keys
                  in if payerIndex = - 1 \<or> treasuryIndex = - 1 \<or> meta tx = None then
                       \<lparr>ok = False, lamportsToTreasury = Some 0, slot = Some (tx_slot tx),
                        blockTime = tx_blockTime tx,
                        err = Some ''Required accounts not in transaction''\<rparr>
                     else
                       (let m = the (meta tx);
                            pre = at_index (preBalances m) payerIndex;
                            post = at_index (postBalances m) payerIndex;
                            preT = at_index (preBalances m) treasuryIndex;
                            postT = at_index (postBalances m) treasuryIndex;
                            paidFromPayer = js_minus pre post;
                            receivedByTreasury = js_minus postT preT;
                            ok' = (js_ge receivedByTreasury minLamports
                                    \<and> js_ge paidFromPayer minLamports)
                        in \<lparr>ok = ok', lamportsToTreasury = receivedByTreasury,
                            slot = Some (tx_slot tx), blockTime = tx_blockTime tx,
                            err = (if ok' then None
                                   else Some ''Insufficient payment to treasury'')\<rparr>))))"

section \<open>Treasury inventory (nft.ts)\<close>

datatype 'a Rpc = RpcThrows | RpcOk 'a

text \<open>
  An NFT or SFT as the code reads it: its mint address, its collection (address and
  verified flag), whether its JSON is loaded, and the collection of its JSON (name and
  family, each possibly missing).
\<close>

record Nft =
  mint :: string
  collection :: "(string \<times> bool) option"
  jsonLoaded :: bool
  jsonCollection :: "(string option \<times> string option) option"

text \<open>
  An entry of \<open>findAllByOwner\<close>: whether its model is \<open>metadata\<close> (then it is loaded
  first, and \<open>loadOk\<close> says that this load returns), the NFT it is or loads to, and whether
  the load that hydrates its JSON returns.
\<close>

record TreasuryItem =
  isMetadata :: bool
  loadOk :: bool
  nft :: Nft
  hydrateOk :: bool

datatype CollectionRef = Certified string | Legacy string

text \<open>
  One round of the loop of \<open>pickPrizeNftFromTreasury\<close>: \<open>Some n\<close> pushes \<open>n\<close> on
  \<open>eligible\<close>, \<open>None\<close> leaves \<open>eligible\<close> as it is (also when the round throws, which
  the inner \<open>catch\<close> only logs).
\<close>

definition eligibleRound :: "CollectionRef \<Rightarrow> TreasuryItem \<Rightarrow> Nft option" where
  "eligibleRound prizeCollection m =
     (if isMetadata m \<and> \<not> loadOk m then None
      else
        (let n = nft m
         in case prizeCollection of
              Certified pk \<Rightarrow>
                (case collection n of
                   Some (addr, verified) \<Rightarrow> if addr = pk \<and> verified then Some n else None
                 | None \<Rightarrow> None)
            | Legacy name \<Rightarrow>
                if \<not> jsonLoaded n \<and> \<not> hydrateOk m then None
                else
                  (case jsonCollection n of
                     Some (cname, family) \<Rightarrow>
                       if cname = Some name \<or> family = Some name then Some n else None
                   | None \<Rightarrow> None)))"

text \<open>
  \<open>pickPrizeNftFromTreasury\<close>, with the value of \<open>Math.random()\<close> as an argument.
  \<open>None\<close> is \<open>null\<close>, and also the \<open>undefined\<close> of an index outside \<open>eligible\<close>, which
  the caller's \<open>if (nft)\<close> treats alike.
\<close>

definition pickPrizeNftFromTreasury ::
  "TreasuryItem list Rpc \<Rightarrow> CollectionRef \<Rightarrow> real \<Rightarrow> Nft option" where
  "pickPrizeNftFromTreasury found prizeCollection rnd =
     (case found of
        RpcThrows \<Rightarrow> None
      | RpcOk all \<Rightarrow>
          (let eligible = List.map_filter (eligibleRound prizeCollection) all
           in if length eligible = 0 then None
              else (let randomIndex = \<lfloor>rnd * real (length eligible)\<rfloor>
                    in at_index eligible randomIndex)))"

section \<open>Requests, collaborators and responses (index.ts)\<close>

record TokenCheck =
  hasAccess :: bool
  balance :: real

record Request =
  body_owner :: string
  body_signature :: string

text \<open>
  What the world outside answers during one request: whether \<open>new PublicKey(owner)\<close>
  throws (\<open>Some\<close> message) or not, the results of \<open>findCollectionCountForOwner\<close> and of
  the four \<open>checkGateTokenHoldings\<close> calls (none of which throws), the ledger's answer to
  \<open>getTransaction\<close>, the value of \<open>Math.random()\<close> in \<open>choosePrize\<close>, the outcome of the
  SOL transfer (\<open>Inl\<close> when \<open>getLatestBlockhash\<close> or \<open>sendAndConfirmTransaction\<close>
  throws, \<open>Inr\<close> its signature), the treasury's NFTs and the value of \<open>Math.random()\<close> in
  the pick, the outcome of \<open>transferNftTo\<close>, the value of \<open>uuidv4()\<close>, and the readings
  of the clock at the signature lookup, in \<open>getOpensRemaining\<close>, at \<open>markSignatureUsed\<close>
  and in \<open>recordOpen\<close>.
\<close>

record World =
  ownerError :: "string option"
  holderCount :: int
  tokenCheck :: TokenCheck
  tokenCheck1 :: TokenCheck
  tokenCheck2 :: TokenCheck
  tokenCheck3 :: TokenCheck
  txFetch :: TxFetch
  variate :: real
  solTransfer :: "string + string"
  treasuryNfts :: "TreasuryItem list Rpc"
  pickVariate :: real
  nftTransfer :: "string + string"
  uuid :: string
  tSig :: int
  tEval :: int
  tMark :: int
  tRecord :: int

definition isTokenHolder :: "World \<Rightarrow> bool" where
  "isTokenHolder w =
     (hasAccess (tokenCheck w) \<or> hasAccess (tokenCheck1 w)
      \<or> hasAccess (tokenCheck2 w) \<or> hasAccess (tokenCheck3 w))"

text \<open>A response: the JSON body of a success, or a status code with its error text.\<close>

datatype 'a Response = Json 'a | Failure int string

record EligibilityJson =
  el_owner :: string
  el_holderCount :: int
  el_tokenBalance :: real
  el_opens :: Opens
  el_rule :: string

record PaymentJson =
  pay_signature :: string
  pay_lamportsToTreasury :: "int option"
  pay_slot :: "int option"
  pay_blockTime :: "int option"

record OpenJson =
  result :: PrizeKind
  prizeTxSig :: "string option"
  prizeMint :: "string option"
  payment :: PaymentJson

text \<open>The calls a request makes on the store and on its collaborators, in order.\<close>

datatype Event =
    HasUsedSignature
  | HoldingsLookup
  | GetOpensRemaining
  | VerifyPayment
  | MarkSignatureUsed
  | ChoosePrize
  | LogPrize PrizeKind
  | SolTransfer
  | PickPrizeNft
  | TransferNft
  | RecordOpen

section \<open>GET /eligibility\<close>

definition eligibility ::
  "Env \<Rightarrow> World \<Rightarrow> string \<Rightarrow> Redis \<Rightarrow> EligibilityJson Response \<times> Redis" where
  "eligibility env w ownerStr R =
     (case ownerError w of
        Some msg \<Rightarrow> (Failure 400 msg, R)
      | None \<Rightarrow>
          (let count = holderCount w;
               (opens, R') = getOpensRemaining env R ownerStr count (isTokenHolder w) (tEval w)
           in (Json \<lparr>el_owner = ownerStr, el_holderCount = count,
                     el_tokenBalance = balance (tokenCheck w), el_opens = opens,
                     el_rule = (if count \<ge> 10 then ''10+ holders can open 2 boxes / 24h''
                                else ''Others can open 1 box / 24h'')\<rparr>,
               R')))"

section \<open>POST /open\<close>

text \<open>
  The distribution of the drawn prize: \<open>Inl\<close> is an exception (which the handler's
  \<open>catch\<close> turns into a 500), \<open>Inr\<close> the values of \<open>prizeTxSig\<close> and \<open>prizeMint\<close>.
\<close>

definition distribute ::
  "Env \<Rightarrow> World \<Rightarrow> PrizeKind \<Rightarrow> (string + string option \<times> string option) \<times> Event list" where
  "distribute env w prize =
     (case prize of
        SOL lamports label \<Rightarrow>
          (case solTransfer w of
             Inl msg \<Rightarrow> (Inl msg, [SolTransfer])
           | Inr sg \<Rightarrow> (Inr (Some sg, None), [SolTransfer]))
      | NFT label \<Rightarrow>
          (case pickPrizeNftFromTreasury (treasuryNfts w)
                  (Legacy (PRIZE_COLLECTION_ADDRESS env)) (pickVariate w) of
             Some n \<Rightarrow>
               (case nftTransfer w of
                  Inl msg \<Rightarrow> (Inl msg, [PickPrizeNft, TransferNft])
                | Inr sigNft \<Rightarrow> (Inr (Some sigNft, Some (mint n)), [PickPrizeNft, TransferNft]))
           | None \<Rightarrow> (Inr (None, None), [PickPrizeNft]))
      | NOTHING \<Rightarrow> (Inr (None, None), []))"

text \<open>
  The handler of \<open>POST /open\<close>: its response, the store it leaves and the calls it made.
\<close>

definition open_box ::
  "Env \<Rightarrow> World \<Rightarrow> Request \<Rightarrow> Redis \<Rightarrow> OpenJson Response \<times> Redis \<times> Event list" where
  "open_box env w req R =
     (case ownerError w of
        Some msg \<Rightarrow> (Failure 500 msg, R, [])
      | None \<Rightarrow>
          if body_signature req = [] then (Failure 400 ''Missing signature'', R, [])
          else if hasUsedSignature R (body_signature req) (tSig w) then
            (Failure 409 ''Signature already used'', R, [HasUsedSignature])
          else
            (let (opens, R1) =
                   getOpensRemaining env R (body_owner req) (holderCount w) (isTokenHolder w) (tEval w)
             in if remaining opens \<le> 0 then
                  (Failure 403 ''Open limit reached in the last cooldown window'', R1,
                   [HasUsedSignature, HoldingsLookup, GetOpensRemaining])
                else
                  (let check = verifyPaymentSignature env (txFetch w) (body_owner req)
                                 (OPEN_FEE_LAMPORTS env)
                   in if \<not> ok check then
                        (Failure 400
                           (''Payment verification failed: ''
                              @ (case err check of
                                   None \<Rightarrow> ''unknown''
                                 | Some e \<Rightarrow> if e = [] then ''unknown'' else e)),
                         R1,
                         [HasUsedSignature, HoldingsLookup, GetOpensRemaining, VerifyPayment])
                      else
                        (let R2 = markSignatureUsed R1 (body_signature req) (tMark w);
                             prize = choosePrize (variate w);
                             (outcome, calls) = distribute env w prize;
                             before = [HasUsedSignature, HoldingsLookup, GetOpensRemaining,
                                       VerifyPayment, MarkSignatureUsed, ChoosePrize,
                                       LogPrize prize] @ calls
                         in case outcome of
                              Inl msg \<Rightarrow> (Failure 500 msg, R2, before)
                            | Inr (txSig, mintAddr) \<Rightarrow>
                                (Json \<lparr>result = prize, prizeTxSig = txSig, prizeMint = mintAddr,
                                       payment =
                                         \<lparr>pay_signature = body_signature req,
                                          pay_lamportsToTreasury = lamportsToTreasury check,
                                          pay_slot = slot check,
                                          pay_blockTime = blockTime check\<rparr>\<rparr>,
                                 recordOpen env R2 (body_owner req) (tRecord w) (uuid w),
                                 before @ [RecordOpen])))))"

section \<open>Notions used to state the properties\<close>

text \<open>
  The cumulative bound before entry \<open>i\<close>: the probability mass of the entries declared
  before it. Entry \<open>i\<close> owns the interval from \<open>cumulative ps i\<close> (included) to
  \<open>cumulative ps (Suc i)\<close> (excluded).
\<close>

definition cumulative :: "(real \<times> 'a) list \<Rightarrow> nat \<Rightarrow> real" where
  "cumulative ps i = sum_list (map fst (take i ps))"

text \<open>The content of a sorted set as a command run at instant \<open>t\<close> sees it.\<close>

definition visible :: "Redis \<Rightarrow> string \<Rightarrow> int \<Rightarrow> (string \<times> int) list" where
  "visible R key t =
     (case live t (zsets R key) of
        None \<Rightarrow> []
      | Some e \<Rightarrow> content e)"

text \<open>
  The active entries of an owner's window at \<open>now\<close>: the visible entries younger than
  the cooldown.
\<close>

definition active :: "Env \<Rightarrow> Redis \<Rightarrow> string \<Rightarrow> int \<Rightarrow> (string \<times> int) list" where
  "active env R owner now =
     filter (\<lambda>(m, s). now - COOLDOWN_MS env < s) (visible R (openKey owner) now)"

text \<open>Scores are readings of \<open>Date.now()\<close>, which are not negative.\<close>

definition scores_nonneg :: "Redis \<Rightarrow> string \<Rightarrow> bool" where
  "scores_nonneg R owner =
     (case zsets R (openKey owner) of
        None \<Rightarrow> True
      | Some e \<Rightarrow> list_all (\<lambda>(m, s). 0 \<le> s) (content e))"

text \<open>
  The tier rule and the limit of each tier, in the words of the specification; the code
  has no tier, only the limit.
\<close>

datatype Tier = TierNone | Holder | SuperHolder

definition spec_tier :: "int \<Rightarrow> bool \<Rightarrow> Tier" where
  "spec_tier holdingCount tokenThresholdMet =
     (if holdingCount \<ge> 10 then SuperHolder
      else if holdingCount > 0 \<or> tokenThresholdMet then Holder
      else TierNone)"

fun spec_limit :: "Tier \<Rightarrow> int" where
  "spec_limit TierNone = 0"
| "spec_limit Holder = 1"
| "spec_limit SuperHolder = 2"

text \<open>\<open>precedes a b tr\<close>: every \<open>b\<close> in \<open>tr\<close> has an \<open>a\<close> before it.\<close>

fun precedes :: "'a \<Rightarrow> 'a \<Rightarrow> 'a list \<Rightarrow> bool" where
  "precedes a b [] = True"
| "precedes a b (x # xs) = (x = a \<or> (x \<noteq> b \<and> precedes a b xs))"

text \<open>
  The run of \<open>POST /open\<close> that passes every check: valid owner, a signature that is
  present and unused, an open remaining, and a verified payment.
\<close>

definition paid_path :: "Env \<Rightarrow> World \<Rightarrow> Request \<Rightarrow> Redis \<Rightarrow> bool" where
  "paid_path env w req R \<longleftrightarrow>
     ownerError w = None \<and> body_signature req \<noteq> []
     \<and> \<not> hasUsedSignature R (body_signature req) (tSig w)
     \<and> 0 < remaining (fst (getOpensRemaining env R (body_owner req) (holderCount w)
                              (isTokenHolder w) (tEval w)))
     \<and> ok (verifyPaymentSignature env (txFetch w) (body_owner req) (OPEN_FEE_LAMPORTS env))"

text \<open>A configuration with the default fee and cooldown, used in the examples.\<close>

definition example_env :: Env where
  "example_env =
     \<lparr>TREASURY_WALLET = ''treasury'', PRIZE_COLLECTION_ADDRESS = ''Elementals'',
      OPEN_FEE_LAMPORTS = 1000000, COOLDOWN_HOURS = 24\<rparr>"

text \<open>
  A request of the holder \<open>alice\<close> of ten items, and the answers of a world in which her
  payment is not found on the ledger and the treasury holds no NFT; \<open>paid_tx\<close> is a
  confirmed transfer of the fee from her to the treasury.
\<close>

definition example_request :: Request where
  "example_request = \<lparr>body_owner = ''alice'', body_signature = ''sig1''\<rparr>"

definition example_world :: World where
  "example_world =
     \<lparr>ownerError = None, holderCount = 10,
      tokenCheck = \<lparr>hasAccess = False, balance = 0\<rparr>,
      tokenCheck1 = \<lparr>hasAccess = False, balance = 0\<rparr>,
      tokenCheck2 = \<lparr>hasAccess = False, balance = 0\<rparr>,
      tokenCheck3 = \<lparr>hasAccess = False, balance = 0\<rparr>,
      txFetch = TxMissing, variate = 9 / 10, solTransfer = Inr ''solsig'',
      treasuryNfts = RpcOk [], pickVariate = 0, nftTransfer = Inr ''nftsig'',
      uuid = ''u3'', tSig = 108001000, tEval = 108001000, tMark = 108001000,
      tRecord = 108001000\<rparr>"

definition paid_tx :: LedgerTx where
  "paid_tx =
     \<lparr>meta = Some \<lparr>metaErr = False, preBalances = [5000000, 0],
                    postBalances = [3995000, 1000000]\<rparr>,
      staticAccountKeys = Inr [''alice'', ''treasury''], tx_slot = 1, tx_blockTime = Some 2\<rparr>"

text \<open>
  A store in which \<open>alice\<close> opened at instant 1000 and again 23 hours later; 30 hours
  after the first open (the instant 108001000 of \<open>example_world\<close>) the first entry is
  older than the cooldown and the key has not expired.
\<close>

definition example_store :: Redis where
  "example_store =
     recordOpen example_env
       (recordOpen example_env empty_redis ''alice'' 1000 ''u1'') ''alice'' 82801000 ''u2''"

text \<open>The total that \<open>normalizeWeights64\<close> divides by.\<close>

definition total64 :: "'a Weighted list \<Rightarrow> number" where
  "total64 items = foldl (\<lambda>s x. js_add s (box (weight x))) (Fin 0) items"

text \<open>
  The weight table with each weight written as the binary64 value that its literal denotes.
\<close>

definition PRIZES_doubles :: "PrizeKind Weighted list" where
  "PRIZES_doubles =
     [ \<lparr> weight = 3039929748475085 / 35184372088832, item = NOTHING \<rparr>,
       \<lparr> weight = 25 / 2, item = NFT ''Elementals NFT'' \<rparr>,
       \<lparr> weight = 1, item = SOL 500000000 ''0.5 SOL'' \<rparr>,
       \<lparr> weight = 3602879701896397 / 36028797018963968, item = SOL 2500000000 ''2.5 SOL'' \<rparr> ]"

section \<open>Properties of double-precision rounding\<close>

lemma pw_pos: "0 < (2 powi k :: real)"
  by simp

lemma pw_add1: "2 powi (k + 1) = 2 * (2 powi k :: real)"
  by (simp add: power_int_add)

lemma pw_sub1: "2 powi (k - 1) = (2 powi k :: real) / 2"
  by (simp add: power_int_diff)

lemma pw_le: "a \<le> b \<Longrightarrow> (2 powi a :: real) \<le> 2 powi b"
  by (rule power_int_increasing) simp_all

lemma pw_lt: "a < b \<Longrightarrow> (2 powi a :: real) < 2 powi b"
  by (rule power_int_strict_increasing) simp_all

lemma pw_le_cancel: "(2 powi a :: real) \<le> 2 powi b \<Longrightarrow> a \<le> b"
  using pw_lt [of b a] by (cases "a \<le> b") auto

lemma pw_lt_cancel: "(2 powi a :: real) < 2 powi b \<Longrightarrow> a < b"
  using pw_le [of b a] by (cases "a < b") auto

lemma scale_exp_spec:
  "0 < x \<Longrightarrow>
     (x < 2 powi (- int n) \<longrightarrow> scale_exp n x = - int n)
   \<and> (2 powi int n \<le> x \<longrightarrow> scale_exp n x = int n)
   \<and> (2 powi (- int n) \<le> x \<and> x < 2 powi int n \<longrightarrow>
        2 powi scale_exp n x \<le> x \<and> x < 2 powi (scale_exp n x + 1))"
proof (induction n arbitrary: x)
  case 0
  then show ?case by simp
next
  case (Suc n)
  have e1: "int (Suc n) = int n + 1" by simp
  have p1: "2 powi (int (Suc n)) = 2 * (2 powi int n :: real)"
    unfolding e1 by (rule pw_add1)
  have e2: "- int (Suc n) = - int n - 1" by simp
  have p2: "2 powi (- int (Suc n)) = (2 powi (- int n) :: real) / 2"
    unfolding e2 by (rule pw_sub1)
  have le1: "(2 powi (- int m) :: real) \<le> 1" for m
    using pw_le [of "- int m" 0] by simp
  have ge1: "(1::real) \<le> 2 powi int m" for m
    using pw_le [of 0 "int m"] by simp
  show ?case
  proof (cases "2 \<le> x")
    case True
    then have pos: "0 < x / 2" by simp
    note IH = Suc.IH [OF pos]
    from True have v: "scale_exp (Suc n) x = scale_exp n (x / 2) + 1" by simp
    from True le1 [of "Suc n"] have small: "\<not> x < 2 powi (- int (Suc n))" by linarith
    from True le1 [of n] have lo: "2 powi (- int n) \<le> x / 2" by linarith
    show ?thesis
    proof (cases "2 powi int (Suc n) \<le> x")
      case big: True
      then have "2 powi int n \<le> x / 2" unfolding p1 by linarith
      with IH have "scale_exp n (x / 2) = int n" by blast
      with v have "scale_exp (Suc n) x = int (Suc n)" by simp
      moreover from big have "\<not> x < 2 powi int (Suc n)" by linarith
      ultimately show ?thesis using small by blast
    next
      case nb: False
      then have "x / 2 < 2 powi int n" unfolding p1 by linarith
      with IH lo have a: "2 powi scale_exp n (x / 2) \<le> x / 2"
        and b: "x / 2 < 2 powi (scale_exp n (x / 2) + 1)" by blast+
      from a have a': "2 powi scale_exp (Suc n) x \<le> x"
        unfolding v pw_add1 by linarith
      from b have b': "x < 2 powi (scale_exp (Suc n) x + 1)"
        unfolding v pw_add1 by linarith
      from a' b' nb small show ?thesis by blast
    qed
  next
    case ge2: False
    show ?thesis
    proof (cases "x < 1")
      case True
      from Suc.prems have pos: "0 < 2 * x" by simp
      note IH = Suc.IH [OF pos]
      from True ge2 have v: "scale_exp (Suc n) x = scale_exp n (2 * x) - 1" by simp
      from True ge1 [of "Suc n"] have nbig: "\<not> 2 powi int (Suc n) \<le> x" by linarith
      show ?thesis
      proof (cases "x < 2 powi (- int (Suc n))")
        case tiny: True
        then have "2 * x < 2 powi (- int n)" unfolding p2 by linarith
        with IH have "scale_exp n (2 * x) = - int n" by blast
        with v have "scale_exp (Suc n) x = - int (Suc n)" by simp
        moreover from tiny have "\<not> 2 powi (- int (Suc n)) \<le> x" by linarith
        ultimately show ?thesis using nbig by blast
      next
        case nt: False
        then have lo: "2 powi (- int n) \<le> 2 * x" unfolding p2 by linarith
        have "2 powi scale_exp n (2 * x) \<le> 2 * x \<and> 2 * x < 2 powi (scale_exp n (2 * x) + 1)"
        proof (cases "2 * x < 2 powi int n")
          case True
          with IH lo show ?thesis by blast
        next
          case False
          with IH have e: "scale_exp n (2 * x) = int n" by simp
          from False \<open>x < 1\<close> have "(2 powi int n :: real) < 2 powi 1" by simp
          then have "int n < 1" by (rule pw_lt_cancel)
          then have "n = 0" by simp
          with e False \<open>x < 1\<close> show ?thesis by simp
        qed
        then have a: "2 powi scale_exp n (2 * x) \<le> 2 * x"
          and b: "2 * x < 2 powi (scale_exp n (2 * x) + 1)" by blast+
        from a have a': "2 powi scale_exp (Suc n) x \<le> x"
          unfolding v pw_sub1 by linarith
        have "scale_exp (Suc n) x + 1 = (scale_exp n (2 * x) + 1) - 1" unfolding v by simp
        then have "2 powi (scale_exp (Suc n) x + 1) = (2 powi (scale_exp n (2 * x) + 1) :: real) / 2"
          by (simp only: pw_sub1)
        with b have b': "x < 2 powi (scale_exp (Suc n) x + 1)" by linarith
        from a' b' nt nbig show ?thesis by blast
      qed
    next
      case False
      with ge2 have v: "scale_exp (Suc n) x = 0" by simp
      from False le1 [of "Suc n"] have a: "\<not> x < 2 powi (- int (Suc n))" by linarith
      from ge2 ge1 [of n] have b: "\<not> 2 powi int (Suc n) \<le> x" unfolding p1 by linarith
      from False ge2 have "2 powi scale_exp (Suc n) x \<le> x \<and> x < 2 powi (scale_exp (Suc n) x + 1)"
        unfolding v by simp
      with a b show ?thesis by blast
    qed
  qed
qed

lemma rhe_error: "\<bar>of_int (round_half_even y) - y\<bar> \<le> 1 / 2"
proof -
  have a: "of_int \<lfloor>y\<rfloor> \<le> y" and b: "y < of_int \<lfloor>y\<rfloor> + 1" by linarith+
  show ?thesis
    unfolding round_half_even_def Let_def using a b by auto
qed

lemma rhe_of_int: "round_half_even (of_int k) = k"
  by (simp add: round_half_even_def)

lemma ilog2_spec:
  assumes "x \<noteq> 0"
  shows "(\<bar>x\<bar> < 2 powi (- 2200) \<longrightarrow> ilog2 x = - 2200)
       \<and> (2 powi 2200 \<le> \<bar>x\<bar> \<longrightarrow> ilog2 x = 2200)
       \<and> (2 powi (- 2200) \<le> \<bar>x\<bar> \<and> \<bar>x\<bar> < 2 powi 2200 \<longrightarrow>
            2 powi ilog2 x \<le> \<bar>x\<bar> \<and> \<bar>x\<bar> < 2 powi (ilog2 x + 1))"
proof -
  from assms have "0 < \<bar>x\<bar>" by simp
  from scale_exp_spec [OF this, of 2200] show ?thesis
    unfolding ilog2_def by simp
qed

lemma ulp_exp_ge: "- 1074 \<le> ulp_exp x"
  by (simp add: ulp_exp_def)

lemma ilog2_lower:
  assumes "x \<noteq> 0" and "2 powi (- 2200) \<le> \<bar>x\<bar>"
  shows "2 powi ilog2 x \<le> \<bar>x\<bar>"
proof (cases "\<bar>x\<bar> < 2 powi 2200")
  case True
  with ilog2_spec [OF assms(1)] assms(2) show ?thesis by blast
next
  case False
  then have "2 powi 2200 \<le> \<bar>x\<bar>" by simp
  with ilog2_spec [OF assms(1)] have "ilog2 x = 2200" by blast
  with \<open>2 powi 2200 \<le> \<bar>x\<bar>\<close> show ?thesis by simp
qed

lemma ulp_exp_upper:
  assumes "x \<noteq> 0" and "\<bar>x\<bar> < 2 powi 2200"
  shows "\<bar>x\<bar> < 2 powi (ulp_exp x + 53)"
proof (cases "\<bar>x\<bar> < 2 powi (- 2200)")
  case True
  have "(2 powi (- 2200) :: real) \<le> 2 powi (ulp_exp x + 53)"
    using ulp_exp_ge [of x] by (intro pw_le) simp
  with True show ?thesis by linarith
next
  case False
  with ilog2_spec [OF assms(1)] assms(2) have "\<bar>x\<bar> < 2 powi (ilog2 x + 1)" by simp
  moreover have "(2 powi (ilog2 x + 1) :: real) \<le> 2 powi (ulp_exp x + 53)"
    by (intro pw_le) (simp add: ulp_exp_def)
  ultimately show ?thesis by linarith
qed

lemma ulp_exp_normal:
  assumes "2 powi (- 1022) \<le> \<bar>x\<bar>"
  shows "2 powi (ulp_exp x + 52) \<le> \<bar>x\<bar>"
proof -
  have "(0::real) < 2 powi (- 1022)" by (rule pw_pos)
  with assms have nz: "x \<noteq> 0" by auto
  have "(2 powi (- 2200) :: real) \<le> 2 powi (- 1022)" by (intro pw_le) simp
  with assms have lo: "2 powi (- 2200) \<le> \<bar>x\<bar>" by linarith
  from ilog2_lower [OF nz lo] have l: "2 powi ilog2 x \<le> \<bar>x\<bar>" .
  show ?thesis
  proof (cases "\<bar>x\<bar> < 2 powi 2200")
    case True
    with ilog2_spec [OF nz] lo have "\<bar>x\<bar> < 2 powi (ilog2 x + 1)" by blast
    with assms have "(2 powi (- 1022) :: real) < 2 powi (ilog2 x + 1)" by linarith
    then have "- 1022 < ilog2 x + 1" by (rule pw_lt_cancel)
    then have "ulp_exp x = ilog2 x - 52" by (simp add: ulp_exp_def)
    with l show ?thesis by simp
  next
    case False
    then have "2 powi 2200 \<le> \<bar>x\<bar>" by simp
    with ilog2_spec [OF nz] have "ilog2 x = 2200" by blast
    then have "ulp_exp x = ilog2 x - 52" by (simp add: ulp_exp_def)
    with l show ?thesis by simp
  qed
qed

lemma ulp_exp_subnormal:
  assumes "x \<noteq> 0" and "\<bar>x\<bar> < 2 powi (- 1022)"
  shows "ulp_exp x = - 1074"
proof (cases "\<bar>x\<bar> < 2 powi (- 2200)")
  case True
  with ilog2_spec [OF assms(1)] have "ilog2 x = - 2200" by blast
  then show ?thesis by (simp add: ulp_exp_def)
next
  case False
  then have lo: "2 powi (- 2200) \<le> \<bar>x\<bar>" by simp
  from ilog2_lower [OF assms(1) lo] assms(2)
  have "(2 powi ilog2 x :: real) < 2 powi (- 1022)" by linarith
  then have "ilog2 x < - 1022" by (rule pw_lt_cancel)
  then show ?thesis by (simp add: ulp_exp_def)
qed

lemma ulp_exp_le:
  assumes "x \<noteq> 0" and "\<bar>x\<bar> < 2 powi (E + 53)" and "- 1074 \<le> E"
  shows "ulp_exp x \<le> E"
proof (cases "\<bar>x\<bar> < 2 powi (- 2200)")
  case True
  with ilog2_spec [OF assms(1)] have "ilog2 x = - 2200" by blast
  with assms(3) show ?thesis by (simp add: ulp_exp_def)
next
  case False
  then have lo: "2 powi (- 2200) \<le> \<bar>x\<bar>" by simp
  from ilog2_lower [OF assms(1) lo] assms(2)
  have "(2 powi ilog2 x :: real) < 2 powi (E + 53)" by linarith
  then have "ilog2 x < E + 53" by (rule pw_lt_cancel)
  with assms(3) show ?thesis by (simp add: ulp_exp_def)
qed

lemma fl64_error_ulp: "\<bar>fl64 x - x\<bar> \<le> 2 powi ulp_exp x / 2"
proof (cases "x = 0")
  case True
  then show ?thesis by (simp add: fl64_def)
next
  case False
  let ?p = "2 powi ulp_exp x :: real"
  have p: "0 < ?p" by (rule pw_pos)
  have "fl64 x - x = (of_int (round_half_even (x / ?p)) - x / ?p) * ?p"
    using False p by (simp add: fl64_def algebra_simps)
  then have "\<bar>fl64 x - x\<bar> = \<bar>of_int (round_half_even (x / ?p)) - x / ?p\<bar> * ?p"
    using p by (simp add: abs_mult)
  also have "\<dots> \<le> (1 / 2) * ?p"
    using p rhe_error [of "x / ?p"] by (intro mult_right_mono) simp_all
  finally show ?thesis by simp
qed

lemma fl64_error_normal:
  assumes "2 powi (- 1022) \<le> \<bar>x\<bar>"
  shows "\<bar>fl64 x - x\<bar> \<le> \<bar>x\<bar> / 2 ^ 53"
proof -
  have "2 powi (ulp_exp x + 52) = 2 powi ulp_exp x * (2 ^ 52 :: real)"
    by (simp add: power_int_add)
  with ulp_exp_normal [OF assms] have "2 powi ulp_exp x * (2 ^ 52 :: real) \<le> \<bar>x\<bar>" by simp
  then have "2 powi ulp_exp x / 2 \<le> \<bar>x\<bar> / 2 ^ 53" by simp
  with fl64_error_ulp [of x] show ?thesis by linarith
qed

lemma fl64_error_subnormal:
  assumes "\<bar>x\<bar> < 2 powi (- 1022)"
  shows "\<bar>fl64 x - x\<bar> \<le> 2 powi (- 1075)"
proof (cases "x = 0")
  case True
  then show ?thesis by (simp add: fl64_def)
next
  case False
  from ulp_exp_subnormal [OF False assms] fl64_error_ulp [of x]
  have "\<bar>fl64 x - x\<bar> \<le> 2 powi (- 1074) / 2" by simp
  also have "\<dots> = 2 powi (- 1075)" using pw_sub1 [of "- 1074"] by simp
  finally show ?thesis .
qed

lemma fl64_error: "\<bar>fl64 x - x\<bar> \<le> \<bar>x\<bar> / 2 ^ 53 + 2 powi (- 1075)"
proof (cases "2 powi (- 1022) \<le> \<bar>x\<bar>")
  case True
  have "(0::real) \<le> 2 powi (- 1075)" by simp
  with fl64_error_normal [OF True] show ?thesis by linarith
next
  case False
  then have "\<bar>x\<bar> < 2 powi (- 1022)" by simp
  from fl64_error_subnormal [OF this] show ?thesis
    by (smt (verit) divide_nonneg_pos abs_ge_zero zero_less_power zero_less_numeral)
qed

lemma fl64_representable:
  assumes x: "x = of_int k * 2 powi E" and k: "\<bar>k\<bar> < 2 ^ 53" and E: "- 1074 \<le> E"
  shows "fl64 x = x"
proof (cases "x = 0")
  case True
  then show ?thesis by (simp add: fl64_def)
next
  case False
  let ?e = "ulp_exp x"
  have "\<bar>x\<bar> = \<bar>of_int k\<bar> * (2 powi E :: real)" unfolding x by (simp add: abs_mult)
  also have "\<dots> < 2 ^ 53 * 2 powi E"
  proof (rule mult_strict_right_mono)
    from k have "real_of_int \<bar>k\<bar> < real_of_int (2 ^ 53)" by (simp only: of_int_less_iff)
    then show "\<bar>real_of_int k\<bar> < 2 ^ 53" by simp
    show "(0::real) < 2 powi E" by (rule pw_pos)
  qed
  also have "\<dots> = 2 powi (E + 53)" by (simp add: power_int_add)
  finally have "\<bar>x\<bar> < 2 powi (E + 53)" .
  from ulp_exp_le [OF False this E] have le: "?e \<le> E" .
  then obtain d where d: "E = ?e + int d"
    by (metis zle_iff_zadd)
  define p :: real where "p = 2 powi ?e"
  have p: "0 < p" unfolding p_def by (rule pw_pos)
  have pe: "2 powi E = p * (2 ^ d :: real)" unfolding d p_def by (simp add: power_int_add)
  from x pe have xk: "x = of_int (k * 2 ^ d) * p" by simp
  with p have "x / p = of_int (k * 2 ^ d)" by simp
  then have "round_half_even (x / p) = k * 2 ^ d" by (simp only: rhe_of_int)
  then have "fl64 x = of_int (k * 2 ^ d) * p" using False by (simp add: fl64_def p_def)
  also have "\<dots> = x" using xk by simp
  finally show ?thesis .
qed

lemma fl64_form:
  "x \<noteq> 0 \<Longrightarrow> fl64 x = of_int (round_half_even (x / 2 powi ulp_exp x)) * 2 powi ulp_exp x"
  by (simp add: fl64_def)

lemma fixed_multiple:
  assumes "fl64 x = x"
  shows "\<exists>K. x = of_int K * 2 powi (- 1074)"
proof (cases "x = 0")
  case True
  then show ?thesis by (intro exI [of _ 0]) simp
next
  case False
  let ?e = "ulp_exp x"
  let ?m = "round_half_even (x / 2 powi ?e)"
  from ulp_exp_ge [of x] obtain d where d: "?e = - 1074 + int d"
    by (metis zle_iff_zadd)
  have "2 powi (- 1074 + int d) = 2 powi (- 1074) * (2 powi int d :: real)"
    by (rule power_int_add) simp
  then have pe: "2 powi ?e = 2 powi (- 1074) * (2 ^ d :: real)"
    unfolding d by (simp only: power_int_of_nat)
  from fl64_form [OF False] assms have "x = of_int ?m * 2 powi ?e" by simp
  then have "x = of_int ?m * (2 powi (- 1074) * 2 ^ d)" by (simp only: pe)
  also have "\<dots> = of_int (?m * 2 ^ d) * 2 powi (- 1074)"
    by (simp only: of_int_mult of_int_power of_int_numeral mult.assoc mult.commute mult.left_commute)
  finally show ?thesis ..
qed

lemma rhe_bound:
  assumes "\<bar>y\<bar> < of_int N"
  shows "\<bar>round_half_even y\<bar> \<le> N"
proof -
  from rhe_error [of y] assms have "\<bar>real_of_int (round_half_even y)\<bar> < of_int N + 1 / 2"
    by linarith
  then have "real_of_int \<bar>round_half_even y\<bar> < real_of_int (N + 1)" by simp
  then have "\<bar>round_half_even y\<bar> < N + 1" by (simp only: of_int_less_iff)
  then show ?thesis by simp
qed

lemma fl64_idem:
  assumes "\<bar>x\<bar> < 2 powi 2200"
  shows "fl64 (fl64 x) = fl64 x"
proof (cases "x = 0")
  case True
  then show ?thesis by (simp add: fl64_def)
next
  case False
  let ?e = "ulp_exp x"
  define p :: real where "p = 2 powi ?e"
  define m where "m = round_half_even (x / p)"
  have p: "0 < p" unfolding p_def by (rule pw_pos)
  have f: "fl64 x = of_int m * p" using fl64_form [OF False] by (simp add: m_def p_def)
  from ulp_exp_upper [OF False assms] have "\<bar>x\<bar> < p * 2 ^ 53"
    unfolding p_def by (simp add: power_int_add)
  with p have "\<bar>x / p\<bar> < 2 ^ 53" by (simp add: abs_mult field_simps)
  then have "\<bar>x / p\<bar> < real_of_int (2 ^ 53)" by simp
  then have mb: "\<bar>m\<bar> \<le> 2 ^ 53" unfolding m_def by (rule rhe_bound)
  show ?thesis
  proof (cases "\<bar>m\<bar> < 2 ^ 53")
    case True
    from f have "fl64 x = of_int m * 2 powi ?e" by (simp only: p_def)
    from fl64_representable [OF this True ulp_exp_ge] show ?thesis .
  next
    case False
    with mb have "\<bar>m\<bar> = 2 ^ 53" by simp
    then consider "m = 2 ^ 53" | "m = - (2 ^ 53)" by (auto simp: abs_if split: if_splits)
    then show ?thesis
    proof cases
      case 1
      have "fl64 x = of_int (2 ^ 52) * 2 powi (?e + 1)"
        unfolding f 1 p_def by (simp add: pw_add1)
      moreover have "- 1074 \<le> ?e + 1" using ulp_exp_ge [of x] by simp
      ultimately show ?thesis by (intro fl64_representable [of _ "2 ^ 52" "?e + 1"]) simp_all
    next
      case 2
      have "fl64 x = of_int (- (2 ^ 52)) * 2 powi (?e + 1)"
        unfolding f 2 p_def by (simp add: pw_add1)
      moreover have "- 1074 \<le> ?e + 1" using ulp_exp_ge [of x] by simp
      ultimately show ?thesis by (intro fl64_representable [of _ "- (2 ^ 52)" "?e + 1"]) simp_all
    qed
  qed
qed

lemma fl64_add_error:
  assumes a: "fl64 a = a" and b: "fl64 b = b"
  shows "\<bar>fl64 (a + b) - (a + b)\<bar> \<le> \<bar>a + b\<bar> / 2 ^ 53"
proof (cases "2 powi (- 1022) \<le> \<bar>a + b\<bar>")
  case True
  then show ?thesis by (rule fl64_error_normal)
next
  case False
  then have small: "\<bar>a + b\<bar> < 2 powi (- 1022)" by simp
  from fixed_multiple [OF a] obtain K where K: "a = of_int K * 2 powi (- 1074)" ..
  from fixed_multiple [OF b] obtain L where L: "b = of_int L * 2 powi (- 1074)" ..
  have s: "a + b = of_int (K + L) * 2 powi (- 1074)" unfolding K L by (simp add: algebra_simps)
  have "(2 powi (- 1022) :: real) = 2 ^ 52 * 2 powi (- 1074)"
    by (simp add: power_int_minus field_simps flip: power_add)
  with small s have "\<bar>real_of_int (K + L)\<bar> * 2 powi (- 1074) < 2 ^ 52 * 2 powi (- 1074)"
    by (simp add: abs_mult)
  then have "\<bar>real_of_int (K + L)\<bar> < 2 ^ 52" by simp
  then have "real_of_int \<bar>K + L\<bar> < real_of_int (2 ^ 52)" by simp
  then have "\<bar>K + L\<bar> < 2 ^ 52" by (simp only: of_int_less_iff)
  then have "\<bar>K + L\<bar> < 2 ^ 53" by simp
  from fl64_representable [OF s this] have "fl64 (a + b) = a + b" by simp
  then show ?thesis by simp
qed

lemma fl64_nonneg: "0 \<le> x \<Longrightarrow> 0 \<le> fl64 x"
proof (cases "x = 0")
  case True
  then show ?thesis by (simp add: fl64_def)
next
  case False
  assume "0 \<le> x"
  then have "0 \<le> x / 2 powi ulp_exp x" by simp
  then have "0 \<le> \<lfloor>x / 2 powi ulp_exp x\<rfloor>" by simp
  then have "0 \<le> round_half_even (x / 2 powi ulp_exp x)"
    unfolding round_half_even_def Let_def by auto
  then show ?thesis unfolding fl64_form [OF False] by simp
qed

lemma box_double: "is_double x \<Longrightarrow> box x = Fin x"
  by (auto simp: box_def is_double_def Let_def)

lemma box_Fin: "box x = Fin y \<Longrightarrow> y = fl64 x \<and> \<bar>fl64 x\<bar> < 2 ^ 1024"
  by (auto simp: box_def Let_def split: if_splits)

lemma box_not_NaN: "box x \<noteq> NaN"
  by (simp add: box_def Let_def)

lemma box_nonneg_not_NInf: "0 \<le> x \<Longrightarrow> box x \<noteq> NInf"
  using fl64_nonneg [of x] by (auto simp: box_def Let_def)

lemma foldl_PInf:
  "\<forall>x \<in> set xs. is_double (weight x) \<Longrightarrow>
   foldl (\<lambda>s x. js_add s (box (weight x))) PInf xs = PInf"
  by (induction xs) (simp_all add: box_double)

lemma p1024: "(2 ^ 1024 :: real) \<le> 2 powi 2199"
proof -
  have "(2 powi 1024 :: real) \<le> 2 powi 2199" by (rule pw_le) simp
  then show ?thesis by simp
qed

lemma scale_lo: "\<bar>a' - c\<bar> \<le> c * u \<Longrightarrow> (1 - u) * c \<le> (a' :: real)"
  by (simp add: algebra_simps abs_le_iff)

lemma scale_hi: "\<bar>a' - c\<bar> \<le> c * u \<Longrightarrow> (a' :: real) \<le> (1 + u) * c"
  by (simp add: algebra_simps abs_le_iff)

lemma acc_bounds:
  fixes xs :: "'a Weighted list"
  assumes "\<forall>x \<in> set xs. is_double (weight x) \<and> 0 < weight x"
    and "is_double a" and "0 \<le> a"
    and "foldl (\<lambda>s x. js_add s (box (weight x))) (Fin a) xs = Fin T"
  shows "is_double T \<and> 0 \<le> T
       \<and> (1 - 1 / 2 ^ 53) ^ length xs * (a + sum_list (map weight xs)) \<le> T
       \<and> T \<le> (1 + 1 / 2 ^ 53) ^ length xs * (a + sum_list (map weight xs))"
  using assms
proof (induction xs arbitrary: a)
  case Nil
  then show ?case by simp
next
  case (Cons x xs)
  let ?w = "weight x"
  let ?u = "1 / 2 ^ 53 :: real"
  let ?S = "sum_list (map weight xs)"
  from Cons.prems(1) have dw: "is_double ?w" and pw: "0 < ?w"
    and rest: "\<forall>x \<in> set xs. is_double (weight x) \<and> 0 < weight x" by simp_all
  from Cons.prems(2) dw have fa: "fl64 a = a" and fw: "fl64 ?w = ?w"
    and ba: "\<bar>a\<bar> < 2 ^ 1024" and bw: "\<bar>?w\<bar> < 2 ^ 1024"
    by (simp_all add: is_double_def)
  have step: "js_add (Fin a) (box ?w) = box (a + ?w)" by (simp add: box_double [OF dw])
  from Cons.prems(4) have f: "foldl (\<lambda>s x. js_add s (box (weight x))) (box (a + ?w)) xs = Fin T"
    by (simp add: step)
  from Cons.prems(3) pw have nn: "0 \<le> a + ?w" by simp
  have "box (a + ?w) \<noteq> PInf"
  proof
    assume "box (a + ?w) = PInf"
    with f rest foldl_PInf [of xs] show False by simp
  qed
  with box_not_NaN [of "a + ?w"] box_nonneg_not_NInf [OF nn]
  obtain a' where a': "box (a + ?w) = Fin a'" by (cases "box (a + ?w)") auto
  from box_Fin [OF a'] have a'f: "a' = fl64 (a + ?w)" and a'b: "\<bar>a'\<bar> < 2 ^ 1024" by simp_all
  from ba bw have "\<bar>a + ?w\<bar> < 2 ^ 1024 + 2 ^ 1024" by linarith
  also have "\<dots> \<le> (2 powi 2200 :: real)"
  proof -
    have "(2 powi 2200 :: real) = 2 * 2 powi 2199" using pw_add1 [of 2199] by simp
    with p1024 show ?thesis by linarith
  qed
  finally have "fl64 a' = a'" unfolding a'f by (rule fl64_idem)
  with a'b have da': "is_double a'" by (simp add: is_double_def)
  from fl64_nonneg [OF nn] have nn': "0 \<le> a'" by (simp add: a'f)
  from fl64_add_error [OF fa fw] nn
  have err: "\<bar>a' - (a + ?w)\<bar> \<le> (a + ?w) * ?u" by (simp add: a'f)
  from f a' have f': "foldl (\<lambda>s x. js_add s (box (weight x))) (Fin a') xs = Fin T" by simp
  from Cons.IH [OF rest da' nn' f']
  have dT: "is_double T" and T0: "0 \<le> T"
    and lo: "(1 - ?u) ^ length xs * (a' + ?S) \<le> T"
    and hi: "T \<le> (1 + ?u) ^ length xs * (a' + ?S)" by blast+
  have S0: "0 \<le> ?S" using rest by (intro sum_list_nonneg) auto
  have u01: "0 \<le> 1 - ?u" "0 \<le> 1 + ?u" "0 \<le> ?u" "?u \<le> 1" by simp_all
  have "(1 - ?u) * (a + ?w + ?S) \<le> a' + ?S"
  proof -
    from err have "(1 - ?u) * (a + ?w) \<le> a'" by (rule scale_lo)
    moreover from S0 have "(1 - ?u) * ?S \<le> ?S" by (simp add: mult_left_le_one_le)
    ultimately show ?thesis by (simp add: algebra_simps)
  qed
  then have "(1 - ?u) ^ length xs * ((1 - ?u) * (a + ?w + ?S)) \<le> (1 - ?u) ^ length xs * (a' + ?S)"
    by (intro mult_left_mono) simp_all
  with lo have lo': "(1 - ?u) ^ length (x # xs) * (a + sum_list (map weight (x # xs))) \<le> T"
    by (simp add: algebra_simps)
  have "a' + ?S \<le> (1 + ?u) * (a + ?w + ?S)"
  proof -
    from err have "a' \<le> (1 + ?u) * (a + ?w)" by (rule scale_hi)
    moreover from S0 have "?S \<le> (1 + ?u) * ?S" by (simp add: algebra_simps)
    ultimately show ?thesis by (simp add: algebra_simps)
  qed
  then have "(1 + ?u) ^ length xs * (a' + ?S) \<le> (1 + ?u) ^ length xs * ((1 + ?u) * (a + ?w + ?S))"
    by (intro mult_left_mono) simp_all
  with hi have hi': "T \<le> (1 + ?u) ^ length (x # xs) * (a + sum_list (map weight (x # xs)))"
    by (simp add: algebra_simps)
  from dT T0 lo' hi' show ?case by blast
qed

lemma sum_list_pos_real:
  fixes f :: "'a \<Rightarrow> real"
  shows "xs \<noteq> [] \<Longrightarrow> \<forall>x \<in> set xs. 0 < f x \<Longrightarrow> 0 < sum_list (map f xs)"
proof (induction xs)
  case Nil
  then show ?case by simp
next
  case (Cons x xs)
  have "0 \<le> sum_list (map f xs)" using Cons.prems(2) by (intro sum_list_nonneg) auto
  moreover have "0 < f x" using Cons.prems(2) by simp
  ultimately show ?case by simp
qed

lemma member_le_sum_list_real:
  fixes f :: "'a \<Rightarrow> real"
  shows "\<forall>y \<in> set xs. 0 \<le> f y \<Longrightarrow> x \<in> set xs \<Longrightarrow> f x \<le> sum_list (map f xs)"
proof (induction xs)
  case Nil
  then show ?case by simp
next
  case (Cons y ys)
  have s: "0 \<le> sum_list (map f ys)" using Cons.prems(1) by (intro sum_list_nonneg) auto
  have y: "0 \<le> f y" using Cons.prems(1) by simp
  show ?case
  proof (cases "x = y")
    case True
    with s show ?thesis by simp
  next
    case False
    with Cons.prems have "x \<in> set ys" by simp
    with Cons.IH Cons.prems(1) have "f x \<le> sum_list (map f ys)" by simp
    with y show ?thesis by simp
  qed
qed

lemma sum_list_error:
  fixes f g h :: "'a \<Rightarrow> real"
  shows "\<forall>x \<in> set xs. \<bar>f x - g x\<bar> \<le> h x \<Longrightarrow>
         \<bar>sum_list (map f xs) - sum_list (map g xs)\<bar> \<le> sum_list (map h xs)"
proof (induction xs)
  case Nil
  then show ?case by simp
next
  case (Cons x xs)
  then have "\<bar>f x - g x\<bar> \<le> h x"
    and "\<bar>sum_list (map f xs) - sum_list (map g xs)\<bar> \<le> sum_list (map h xs)" by simp_all
  then show ?case by simp
qed

lemma sum_list_quotients:
  fixes T :: real
  shows "sum_list (map (\<lambda>x. weight x / T) xs) = sum_list (map weight xs) / T"
  by (induction xs) (simp_all add: add_divide_distrib)

lemma sum_list_tolerances:
  fixes T u e :: real
  shows "sum_list (map (\<lambda>x. weight x / T * u + e) xs)
           = sum_list (map weight xs) / T * u + real (length xs) * e"
  by (induction xs) (simp_all add: algebra_simps add_divide_distrib)

lemma ratio_upper:
  fixes S T m :: real
  assumes "0 \<le> m" "m \<le> 1 / 2" "0 \<le> S" "S * (1 - m) \<le> T"
  shows "S \<le> T * (1 + 2 * m)"
proof -
  have "0 \<le> m * (1 - 2 * m)" using assms(1,2) by (intro mult_nonneg_nonneg) simp_all
  then have "1 \<le> (1 - m) * (1 + 2 * m)" by (simp add: algebra_simps)
  then have "S * 1 \<le> S * ((1 - m) * (1 + 2 * m))" using assms(3) by (intro mult_left_mono)
  also have "\<dots> = (S * (1 - m)) * (1 + 2 * m)" by simp
  also have "\<dots> \<le> T * (1 + 2 * m)" using assms(1,4) by (intro mult_right_mono) simp_all
  finally show ?thesis by simp
qed

lemma ratio_lower:
  fixes S T m :: real
  assumes "0 \<le> m" "0 \<le> S" "T \<le> (1 + 2 * m) * S" "m \<le> 1 / 2"
  shows "T * (1 - 2 * m) \<le> S"
proof -
  have "T * (1 - 2 * m) \<le> ((1 + 2 * m) * S) * (1 - 2 * m)"
    using assms(3,4) by (intro mult_right_mono) simp_all
  also have "\<dots> = S * ((1 + 2 * m) * (1 - 2 * m))" by simp
  also have "\<dots> \<le> S * 1"
  proof (intro mult_left_mono assms(2))
    have "0 \<le> m * m" by simp
    then show "(1 + 2 * m) * (1 - 2 * m) \<le> 1" by (simp add: algebra_simps)
  qed
  finally show ?thesis by simp
qed

lemma eta_le_u: "(2 powi (- 1075) :: real) \<le> 1 / 2 ^ 53"
proof -
  have "(2 powi (- 1075) :: real) \<le> 2 powi (- 53)" by (rule pw_le) simp
  also have "\<dots> = inverse (2 powi 53)" by (rule power_int_minus)
  also have "\<dots> = 1 / 2 ^ 53" by (simp add: inverse_eq_divide)
  finally show ?thesis .
qed

lemma fl64_zero: "fl64 0 = 0"
  by (simp add: fl64_def)

lemma is_double_zero: "is_double 0"
  by (simp add: is_double_def fl64_zero)

lemma normalize64_general:
  fixes items :: "'a Weighted list"
  assumes ne: "items \<noteq> []" and len: "length items \<le> 2 ^ 52"
    and pos: "\<forall>x \<in> set items. is_double (weight x) \<and> 0 < weight x"
    and tot: "foldl (\<lambda>s x. js_add s (box (weight x))) (Fin 0) items = Fin T"
  shows "0 < T"
    and "sum_list (map weight items) * (1 - real (length items) / 2 ^ 53) \<le> T"
    and "T \<le> sum_list (map weight items) * (1 + 2 * real (length items) / 2 ^ 53)"
    and "normalizeWeights64 items = map (\<lambda>x. (Fin (fl64 (weight x / T)), item x)) items"
    and "\<bar>sum_list (map (\<lambda>x. fl64 (weight x / T)) items) - 1\<bar>
           \<le> (3 * real (length items) + 2) / 2 ^ 53"
proof -
  define n where "n = length items"
  define u :: real where "u = 1 / 2 ^ 53"
  define e :: real where "e = 2 powi (- 1075)"
  define S where "S = sum_list (map weight items)"
  define m where "m = real n * u"
  have u0: "0 < u" and u1: "u \<le> 1" by (simp_all add: u_def)
  have e0: "0 < e" unfolding e_def by (rule pw_pos)
  have eu: "e \<le> u" unfolding e_def u_def by (rule eta_le_u)
  have m0: "0 \<le> m" using u0 by (simp add: m_def)
  have "real n \<le> 2 ^ 52" using len unfolding n_def
    by (metis of_nat_le_iff of_nat_numeral of_nat_power)
  then have "real n * u \<le> 2 ^ 52 * u" using u0 by (intro mult_right_mono) simp_all
  then have m12: "m \<le> 1 / 2" by (simp add: m_def u_def)
  have S0: "0 < S" unfolding S_def using ne pos by (intro sum_list_pos_real) auto
  from acc_bounds [OF pos is_double_zero _ tot]
  have lo: "(1 - u) ^ n * S \<le> T" and hi: "T \<le> (1 + u) ^ n * S"
    by (simp_all add: n_def u_def S_def)
  have bern: "1 - m \<le> (1 - u) ^ n"
    using Bernoulli_inequality [of "- u" n] u1 by (simp add: m_def)
  have "S * (1 - m) \<le> S * (1 - u) ^ n" using S0 bern by (intro mult_left_mono) simp_all
  with lo have lo': "S * (1 - m) \<le> T" by (simp add: mult.commute)
  have "0 < S * (1 - m)" using S0 m12 by (intro mult_pos_pos) simp_all
  with lo' show T0: "0 < T" by linarith
  from lo' show "sum_list (map weight items) * (1 - real (length items) / 2 ^ 53) \<le> T"
    by (simp add: m_def u_def n_def S_def)
  have up: "S \<le> T * (1 + 2 * m)" using m0 m12 S0 lo' by (intro ratio_upper) simp_all
  have "(1 + u) ^ n * (1 - m) \<le> (1 + u) ^ n * (1 - u) ^ n"
    using bern u0 by (intro mult_left_mono) simp_all
  also have "\<dots> = ((1 + u) * (1 - u)) ^ n" by (simp add: power_mult_distrib)
  also have "\<dots> \<le> 1"
  proof (rule power_le_one)
    show "0 \<le> (1 + u) * (1 - u)" using u0 u1 by (intro mult_nonneg_nonneg) simp_all
    have "0 \<le> u * u" by simp
    then show "(1 + u) * (1 - u) \<le> 1" by (simp add: algebra_simps)
  qed
  finally have "(1 + u) ^ n * (1 - m) \<le> 1" .
  with m0 m12 have "(1 + u) ^ n \<le> 1 * (1 + 2 * m)"
    using u0 by (intro ratio_upper) simp_all
  then have "(1 + u) ^ n * S \<le> (1 + 2 * m) * S" using S0 by (intro mult_right_mono) simp_all
  with hi have hi': "T \<le> (1 + 2 * m) * S" by linarith
  then show "T \<le> sum_list (map weight items) * (1 + 2 * real (length items) / 2 ^ 53)"
    by (simp add: m_def u_def n_def S_def mult.commute)
  from hi' m0 m12 S0 have down: "T * (1 - 2 * m) \<le> S" by (intro ratio_lower) simp_all
  define rho where "rho = S / T"
  from up T0 have rho_hi: "rho \<le> 1 + 2 * m" by (simp add: rho_def field_simps)
  from down T0 have rho_lo: "1 - 2 * m \<le> rho" by (simp add: rho_def field_simps)
  have q: "0 \<le> weight x / T \<and> weight x / T \<le> rho" if "x \<in> set items" for x
  proof -
    from that pos have "0 < weight x" by simp
    moreover have "weight x \<le> S" unfolding S_def
      using pos that by (intro member_le_sum_list_real) auto
    ultimately show ?thesis using T0 by (simp add: rho_def divide_right_mono)
  qed
  have err: "\<bar>fl64 (weight x / T) - weight x / T\<bar> \<le> weight x / T * u + e"
    if "x \<in> set items" for x
  proof -
    from q [OF that] have "\<bar>weight x / T\<bar> = weight x / T" by (simp only: abs_of_nonneg)
    then have "\<bar>weight x / T\<bar> / 2 ^ 53 = weight x / T * u" by (simp only: u_def) simp
    with fl64_error [of "weight x / T"] show ?thesis by (simp only: e_def)
  qed
  have fin: "box (weight x / T) = Fin (fl64 (weight x / T))" if "x \<in> set items" for x
  proof -
    from q [OF that] have q0: "0 \<le> weight x / T" and q2: "weight x / T \<le> 2"
      using rho_hi m12 by simp_all
    have "weight x / T * u \<le> 2 * 1" using q0 q2 u0 u1 by (intro mult_mono) simp_all
    with err [OF that] q2 eu u1 have "fl64 (weight x / T) \<le> 5" by linarith
    moreover have "0 \<le> fl64 (weight x / T)" using q0 by (rule fl64_nonneg)
    ultimately show ?thesis by (simp add: box_def Let_def)
  qed
  have "js_div (box (weight x)) (Fin T) = Fin (fl64 (weight x / T))" if "x \<in> set items" for x
    using that pos T0 fin [OF that] by (simp add: box_double)
  then show "normalizeWeights64 items = map (\<lambda>x. (Fin (fl64 (weight x / T)), item x)) items"
    by (simp add: normalizeWeights64_def Let_def tot)
  have "\<bar>sum_list (map (\<lambda>x. fl64 (weight x / T)) items)
          - sum_list (map (\<lambda>x. weight x / T) items)\<bar>
        \<le> sum_list (map (\<lambda>x. weight x / T * u + e) items)"
    using err by (intro sum_list_error) simp
  then have d: "\<bar>sum_list (map (\<lambda>x. fl64 (weight x / T)) items) - rho\<bar> \<le> rho * u + real n * e"
    unfolding sum_list_quotients sum_list_tolerances rho_def S_def n_def .
  have "rho * u \<le> (1 + 2 * m) * u" using rho_hi u0 by (intro mult_right_mono) simp_all
  also have "\<dots> = u + (2 * m) * u" by (simp add: algebra_simps)
  also have "\<dots> \<le> u + 1 * u" using m12 u0 by (intro add_left_mono mult_right_mono) simp_all
  finally have a: "rho * u \<le> 2 * u" by simp
  have b: "real n * e \<le> m" unfolding m_def using eu by (intro mult_left_mono) simp_all
  from d a b rho_hi rho_lo
  have "\<bar>sum_list (map (\<lambda>x. fl64 (weight x / T)) items) - 1\<bar> \<le> 3 * m + 2 * u" by linarith
  also have "\<dots> = (3 * real (length items) + 2) / 2 ^ 53"
    by (simp add: m_def u_def n_def add_divide_distrib)
  finally show "\<bar>sum_list (map (\<lambda>x. fl64 (weight x / T)) items) - 1\<bar>
           \<le> (3 * real (length items) + 2) / 2 ^ 53" .
qed

section \<open>Properties of the draw\<close>

lemma normalize_PRIZES:
  "normalizeWeights PRIZES =
     [ (864 / 1000, NOTHING),
       (125 / 1000, NFT ''Elementals NFT''),
       (1 / 100, SOL 500000000 ''0.5 SOL''),
       (1 / 1000, SOL 2500000000 ''2.5 SOL'') ]"
  by (simp add: normalizeWeights_def PRIZES_def LAMPORTS_PER_SOL_def)


lemma cumulative_0: "cumulative ps 0 = 0"
  by (simp add: cumulative_def)

lemma cumulative_Cons_Suc: "cumulative (q # ps) (Suc i) = fst q + cumulative ps i"
  by (simp add: cumulative_def)

lemma cumulative_nonneg:
  "\<forall>q \<in> set ps. 0 \<le> fst q \<Longrightarrow> 0 \<le> cumulative ps i"
  unfolding cumulative_def
  by (rule sum_list_nonneg) (auto dest: in_set_takeD)

lemma chooseLoop_interval:
  "\<forall>q \<in> set ps. 0 \<le> fst q \<Longrightarrow> i < length ps \<Longrightarrow> cumulative ps i \<le> r \<Longrightarrow>
   r < cumulative ps (Suc i) \<Longrightarrow> chooseLoop ps r = Some (snd (ps ! i))"
proof (induction ps arbitrary: i r)
  case Nil
  then show ?case by simp
next
  case (Cons q ps)
  obtain p it where q: "q = (p, it)" by (cases q)
  show ?case
  proof (cases i)
    case 0
    with Cons.prems q have "r < p" by (simp add: cumulative_def)
    with q 0 show ?thesis by simp
  next
    case (Suc j)
    from Cons.prems have nn: "\<forall>q \<in> set ps. 0 \<le> fst q" by simp
    from Cons.prems Suc q have lo: "p + cumulative ps j \<le> r"
      by (simp add: cumulative_Cons_Suc)
    from Cons.prems Suc q have hi: "r < p + cumulative ps (Suc j)"
      by (simp add: cumulative_Cons_Suc)
    from nn have "0 \<le> cumulative ps j" by (rule cumulative_nonneg)
    with lo have "\<not> r < p" by simp
    moreover have "chooseLoop ps (r - p) = Some (snd (ps ! j))"
    proof (rule Cons.IH [OF nn])
      from Cons.prems Suc show "j < length ps" by simp
      from lo show "cumulative ps j \<le> r - p" by simp
      from hi show "r - p < cumulative ps (Suc j)" by simp
    qed
    ultimately show ?thesis using q Suc by simp
  qed
qed

text \<open>
  C5. The draw walks the entries in declared order and takes the entry whose cumulative
  interval contains the variate: for non-negative probabilities, a variate \<open>r\<close> with
  \<open>cumulative ps i \<le> r < cumulative ps (Suc i)\<close> selects entry \<open>i\<close>. With the
  normalized table and \<open>r = 0.9\<close> the second-declared outcome (the NFT) is selected,
  since \<open>0.864 \<le> 0.9 < 0.989\<close>.
\<close>

theorem choosePrize_cumulative_interval:
  "((\<forall>q \<in> set ps. 0 \<le> fst q) \<and> i < length ps \<and> cumulative ps i \<le> r
      \<and> r < cumulative ps (Suc i)
     \<longrightarrow> chooseLoop ps r = Some (snd (ps ! i)))
   \<and> (i < length PRIZES \<and> cumulative (normalizeWeights PRIZES) i \<le> r
      \<and> r < cumulative (normalizeWeights PRIZES) (Suc i)
     \<longrightarrow> choosePrize r = item (PRIZES ! i))
   \<and> cumulative (normalizeWeights PRIZES) 1 = 864 / 1000
   \<and> cumulative (normalizeWeights PRIZES) 2 = 989 / 1000
   \<and> choosePrize (9 / 10) = item (PRIZES ! 1)
   \<and> item (PRIZES ! 1) = NFT ''Elementals NFT''"
proof (intro conjI impI)
  assume "(\<forall>q \<in> set ps. 0 \<le> fst q) \<and> i < length ps \<and> cumulative ps i \<le> r
      \<and> r < cumulative ps (Suc i)"
  then show "chooseLoop ps r = Some (snd (ps ! i))"
    by (simp add: chooseLoop_interval)
next
  let ?ps = "normalizeWeights PRIZES"
  assume a: "i < length PRIZES \<and> cumulative ?ps i \<le> r \<and> r < cumulative ?ps (Suc i)"
  have nn: "\<forall>q \<in> set ?ps. 0 \<le> fst q" by (simp add: normalize_PRIZES)
  have len: "length ?ps = length PRIZES" by (simp add: normalizeWeights_def)
  from a len have "chooseLoop ?ps r = Some (snd (?ps ! i))"
    by (intro chooseLoop_interval [OF nn]) simp_all
  moreover from a have "snd (?ps ! i) = item (PRIZES ! i)"
    by (simp add: normalizeWeights_def)
  ultimately show "choosePrize r = item (PRIZES ! i)"
    by (simp add: choosePrize_def)
next
  show "cumulative (normalizeWeights PRIZES) 1 = 864 / 1000"
    by (simp add: cumulative_def normalize_PRIZES)
  show "cumulative (normalizeWeights PRIZES) 2 = 989 / 1000"
    by (simp add: cumulative_def normalize_PRIZES numeral_2_eq_2)
  show "choosePrize (9 / 10) = item (PRIZES ! 1)"
    unfolding choosePrize_def normalize_PRIZES by (simp add: PRIZES_def)
  show "item (PRIZES ! 1) = NFT ''Elementals NFT''"
    by (simp add: PRIZES_def)
qed

theorem choosePrize_cumulative_interval_witness:
  "list_all (\<lambda>q. 0 \<le> fst q) (normalizeWeights PRIZES)
   \<and> (1::nat) < length (normalizeWeights PRIZES) \<and> 1 < length PRIZES
   \<and> cumulative (normalizeWeights PRIZES) 1 \<le> 9 / 10
   \<and> 9 / 10 < cumulative (normalizeWeights PRIZES) (Suc 1)
   \<and> chooseLoop (normalizeWeights PRIZES) (9 / 10) = Some (NFT ''Elementals NFT'')
   \<and> choosePrize (9 / 10) = NFT ''Elementals NFT''"
proof -
  let ?ps = "normalizeWeights PRIZES"
  have nn: "\<forall>q \<in> set ?ps. 0 \<le> fst q" by (simp add: normalize_PRIZES)
  have l1: "(1::nat) < length ?ps" by (simp add: normalize_PRIZES)
  have l2: "(1::nat) < length PRIZES" by (simp add: PRIZES_def)
  have lo: "cumulative ?ps 1 \<le> 9 / 10" by (simp add: cumulative_def normalize_PRIZES)
  have hi: "9 / 10 < cumulative ?ps (Suc 1)"
    by (simp add: cumulative_def normalize_PRIZES)
  have el: "snd (?ps ! 1) = NFT ''Elementals NFT''" by (simp add: normalize_PRIZES)
  from choosePrize_cumulative_interval [of ?ps 1 "9 / 10"] nn l1 l2 lo hi el
  show ?thesis by (simp add: list_all_iff)
qed





lemma scale_exp_numeral:
  "scale_exp (numeral k) x =
     (if 2 \<le> x then scale_exp (pred_numeral k) (x / 2) + 1
      else if x < 1 then scale_exp (pred_numeral k) (2 * x) - 1
      else 0)"
  by (simp add: numeral_eq_Suc)

lemmas fl64_eval = fl64_def ulp_exp_def ilog2_def round_half_even_def Let_def scale_exp_numeral

lemma box_eval: "fl64 x = y \<Longrightarrow> - (2 ^ 1024) < y \<Longrightarrow> y < 2 ^ 1024 \<Longrightarrow> box x = Fin y"
  by (simp add: box_def Let_def)

lemma box_w1: "box (864 / 10) = Fin (3039929748475085 / 35184372088832)"
  by (rule box_eval) (simp_all add: fl64_eval)

lemma box_w2: "box (125 / 10) = Fin (25 / 2)"
  by (rule box_eval) (simp_all add: fl64_eval)

lemma box_w3: "box 1 = Fin 1"
  by (rule box_eval) (simp_all add: fl64_eval)

lemma box_w4: "box (1 / 10) = Fin (3602879701896397 / 36028797018963968)"
  by (rule box_eval) (simp_all add: fl64_eval)

lemma box_s1: "box (0 + 3039929748475085 / 35184372088832) = Fin (3039929748475085 / 35184372088832)"
  by (rule box_eval) (simp_all add: fl64_eval)

lemma box_s2: "box (3039929748475085 / 35184372088832 + 25 / 2) = Fin (3479734399585485 / 35184372088832)"
  by (rule box_eval) (simp_all add: fl64_eval)

lemma box_s3: "box (3479734399585485 / 35184372088832 + 1) = Fin (3514918771674317 / 35184372088832)"
  by (rule box_eval) (simp_all add: fl64_eval)

lemma box_s4: "box (3514918771674317 / 35184372088832 + 3602879701896397 / 36028797018963968) = Fin 100"
  by (rule box_eval) (simp_all add: fl64_eval)

lemma js_div_100: "js_div (Fin a) (Fin 100) = box (a / 100)"
  by simp

lemma box_p1: "box (3039929748475085 / 35184372088832 / 100) = Fin (3891110078048109 / 4503599627370496)"
  by (rule box_eval) (simp_all add: fl64_eval)

lemma box_p2: "box (25 / 2 / 100) = Fin (1 / 8)"
  by (rule box_eval) (simp_all add: fl64_eval)

lemma box_p3: "box (1 / 100) = Fin (5764607523034235 / 576460752303423488)"
  by (rule box_eval) (simp_all add: fl64_eval)

lemma box_p4: "box (3602879701896397 / 36028797018963968 / 100) = Fin (1152921504606847 / 1152921504606846976)"
  by (rule box_eval) (simp_all add: fl64_eval)

lemma total64_PRIZES: "foldl (\<lambda>s x. js_add s (box (weight x))) (Fin 0) PRIZES = Fin 100"
  unfolding PRIZES_def
  by (simp only: foldl.simps Weighted.simps box_w1 box_w2 box_w3 box_w4 js_add.simps
        box_s1 box_s2 box_s3 box_s4)

lemma normalizeWeights64_PRIZES:
  "normalizeWeights64 PRIZES =
     [ (Fin (3891110078048109 / 4503599627370496), NOTHING),
       (Fin (1 / 8), NFT ''Elementals NFT''),
       (Fin (5764607523034235 / 576460752303423488), SOL 500000000 ''0.5 SOL''),
       (Fin (1152921504606847 / 1152921504606846976), SOL 2500000000 ''2.5 SOL'') ]"
proof -
  have "normalizeWeights64 PRIZES
      = [ (Fin (3891110078048109 / 4503599627370496), NOTHING),
          (Fin (1 / 8), NFT ''Elementals NFT''),
          (Fin (5764607523034235 / 576460752303423488), SOL (5 / 10 * LAMPORTS_PER_SOL) ''0.5 SOL''),
          (Fin (1152921504606847 / 1152921504606846976), SOL (25 / 10 * LAMPORTS_PER_SOL) ''2.5 SOL'') ]"
    unfolding normalizeWeights64_def total64_PRIZES Let_def
    unfolding PRIZES_def
    by (simp only: list.map Weighted.simps box_w1 box_w2 box_w3 box_w4 js_div_100
          box_p1 box_p2 box_p3 box_p4)
  then show ?thesis by (simp add: LAMPORTS_PER_SOL_def)
qed

lemma box_1e308: "box (10 ^ 308) = Fin (5010420900022432 * 2 ^ 971)"
  by (rule box_eval) (simp_all add: fl64_eval)

lemma box_1e308_acc: "box (0 + 5010420900022432 * 2 ^ 971) = Fin (5010420900022432 * 2 ^ 971)"
proof (rule box_eval)
  show "fl64 (0 + 5010420900022432 * 2 ^ 971) = 5010420900022432 * 2 ^ 971"
    by (rule trans [OF fl64_representable [of _ 5010420900022432 971]]) simp_all
qed simp_all

lemma box_1e308_twice: "box (5010420900022432 * 2 ^ 971 + 5010420900022432 * 2 ^ 971) = PInf"
proof -
  have "fl64 (5010420900022432 * 2 ^ 971 + 5010420900022432 * 2 ^ 971)
          = 5010420900022432 * 2 ^ 971 + 5010420900022432 * 2 ^ 971"
    by (rule fl64_representable [of _ 5010420900022432 972]) simp_all
  then show ?thesis by (simp add: box_def Let_def)
qed

lemma overflow_example:
  "normalizeWeights64 [\<lparr> weight = 10 ^ 308, item = () \<rparr>, \<lparr> weight = 10 ^ 308, item = () \<rparr>]
     = [(Fin 0, ()), (Fin 0, ())]"
  unfolding normalizeWeights64_def Let_def
  by (simp only: foldl.simps list.map Weighted.simps box_1e308 js_add.simps box_1e308_acc
        box_1e308_twice js_div.simps)

lemma is_double_eval: "fl64 x = x \<Longrightarrow> \<bar>x\<bar> < 2 ^ 1024 \<Longrightarrow> is_double x"
  by (simp add: is_double_def)

lemma PRIZES_doubles_weights:
  "is_double (3039929748475085 / 35184372088832)" "is_double (25 / 2)" "is_double 1"
  "is_double (3602879701896397 / 36028797018963968)"
  by (rule is_double_eval, simp add: fl64_eval, simp)+

lemma total64_PRIZES_doubles: "total64 PRIZES_doubles = Fin 100"
  unfolding total64_def PRIZES_doubles_def
  by (simp only: foldl.simps Weighted.simps PRIZES_doubles_weights [THEN box_double]
        js_add.simps box_s1 box_s2 box_s3 box_s4)

lemma fl64_p1: "fl64 (3039929748475085 / 35184372088832 / 100) = 3891110078048109 / 4503599627370496"
  by (simp add: fl64_eval)

lemma fl64_p2: "fl64 (25 / 2 / 100) = 1 / 8"
  by (simp add: fl64_eval)

lemma fl64_p3: "fl64 (1 / 100) = 5764607523034235 / 576460752303423488"
  by (simp add: fl64_eval)

lemma fl64_p4: "fl64 (3602879701896397 / 36028797018963968 / 100) = 1152921504606847 / 1152921504606846976"
  by (simp add: fl64_eval)

lemma box_0864: "box (864 / 1000) = Fin (7782220156096217 / 9007199254740992)"
  by (rule box_eval) (simp_all add: fl64_eval)

text \<open>
  C4, as the claim states it: every non-empty list of positive weights is normalized to the
  quotients weight / sum, which sum to 1, and the weights of the table give 0.864, 0.125,
  0.01 and 0.001. The program computes in binary64 arithmetic. Two weights \<open>1e308\<close> have
  the total \<open>Infinity\<close>, so both returned values are 0 and their sum is 0, where the exact
  quotients are 1/2 and 1/2. On the table itself the first value is \<open>86.4 / 100\<close>, which is
  0.8640000000000001, the binary64 value next above the one that the literal \<open>0.864\<close>
  denotes.
\<close>

theorem normalizeWeights64_counterexample:
  "0 < (10 ^ 308 :: real)
   \<and> map fst (normalizeWeights64
        [\<lparr> weight = 10 ^ 308, item = () \<rparr>, \<lparr> weight = 10 ^ 308, item = () \<rparr>])
       = [Fin 0, Fin 0]
   \<and> map fst (normalizeWeights
        [\<lparr> weight = 10 ^ 308, item = () \<rparr>, \<lparr> weight = 10 ^ 308, item = () \<rparr>])
       = [1 / 2, 1 / 2]
   \<and> fst (normalizeWeights64 PRIZES ! 0) = Fin (3891110078048109 / 4503599627370496)
   \<and> box (864 / 1000) = Fin (7782220156096217 / 9007199254740992)
   \<and> fst (normalizeWeights64 PRIZES ! 0) \<noteq> box (864 / 1000)"
proof (intro conjI)
  show "0 < (10 ^ 308 :: real)" by simp
  show "map fst (normalizeWeights64
        [\<lparr> weight = 10 ^ 308, item = () \<rparr>, \<lparr> weight = 10 ^ 308, item = () \<rparr>])
       = [Fin 0, Fin 0]"
    unfolding overflow_example by simp
  show "map fst (normalizeWeights
        [\<lparr> weight = 10 ^ 308, item = () \<rparr>, \<lparr> weight = 10 ^ 308, item = () \<rparr>])
       = [1 / 2, 1 / 2]"
    by (simp add: normalizeWeights_def)
  show "fst (normalizeWeights64 PRIZES ! 0) = Fin (3891110078048109 / 4503599627370496)"
    unfolding normalizeWeights64_PRIZES by simp
  show "box (864 / 1000) = Fin (7782220156096217 / 9007199254740992)" by (rule box_0864)
  show "fst (normalizeWeights64 PRIZES ! 0) \<noteq> box (864 / 1000)"
    unfolding normalizeWeights64_PRIZES box_0864 by simp
qed

text \<open>
  C4, amended. Take a non-empty list of at most \<open>2 ^ 52\<close> positive binary64 weights whose
  total \<open>T\<close>, as \<open>reduce\<close> computes it, is finite, and let \<open>n\<close> be its length. Then \<open>T\<close>
  is positive and lies between the exact sum times \<open>1 - n / 2 ^ 53\<close> and the exact sum times
  \<open>1 + 2 n / 2 ^ 53\<close>; \<open>normalizeWeights\<close> returns one entry per weight, in order, holding
  the binary64 value nearest to weight / \<open>T\<close> and the item unchanged; and the exact sum of the
  returned values differs from 1 by at most \<open>(3 n + 2) / 2 ^ 53\<close>, whatever the weights sum
  to. For the table of the code the total is exactly 100 and the returned values are the
  binary64 values 0.8640000000000001, 0.125, 0.01 and 0.001, each within \<open>1 / 2 ^ 53\<close> of the
  exact quotient.
\<close>

theorem normalizeWeights64_tolerance:
  "(items \<noteq> [] \<and> length items \<le> 2 ^ 52
      \<and> (\<forall>x \<in> set items. is_double (weight x) \<and> 0 < weight x)
      \<and> total64 items = Fin T
     \<longrightarrow> 0 < T
       \<and> sum_list (map weight items) * (1 - real (length items) / 2 ^ 53) \<le> T
       \<and> T \<le> sum_list (map weight items) * (1 + 2 * real (length items) / 2 ^ 53)
       \<and> normalizeWeights64 items = map (\<lambda>x. (Fin (fl64 (weight x / T)), item x)) items
       \<and> \<bar>sum_list (map (\<lambda>x. fl64 (weight x / T)) items) - 1\<bar>
            \<le> (3 * real (length items) + 2) / 2 ^ 53)
   \<and> total64 PRIZES = Fin 100
   \<and> normalizeWeights64 PRIZES =
       [ (Fin (3891110078048109 / 4503599627370496), NOTHING),
         (Fin (1 / 8), NFT ''Elementals NFT''),
         (Fin (5764607523034235 / 576460752303423488), SOL 500000000 ''0.5 SOL''),
         (Fin (1152921504606847 / 1152921504606846976), SOL 2500000000 ''2.5 SOL'') ]
   \<and> list_all2 (\<lambda>p q. case p of Fin v \<Rightarrow> \<bar>v - q\<bar> \<le> 1 / 2 ^ 53 | _ \<Rightarrow> False)
        (map fst (normalizeWeights64 PRIZES)) (map fst (normalizeWeights PRIZES))"
proof (intro conjI impI)
  assume a: "items \<noteq> [] \<and> length items \<le> 2 ^ 52
      \<and> (\<forall>x \<in> set items. is_double (weight x) \<and> 0 < weight x)
      \<and> total64 items = Fin T"
  then have ne: "items \<noteq> []" and len: "length items \<le> 2 ^ 52"
    and pos: "\<forall>x \<in> set items. is_double (weight x) \<and> 0 < weight x"
    and tot: "foldl (\<lambda>s x. js_add s (box (weight x))) (Fin 0) items = Fin T"
    by (simp_all add: total64_def)
  note g = normalize64_general [OF ne len pos tot]
  show "0 < T" by (rule g(1))
  show "sum_list (map weight items) * (1 - real (length items) / 2 ^ 53) \<le> T" by (rule g(2))
  show "T \<le> sum_list (map weight items) * (1 + 2 * real (length items) / 2 ^ 53)"
    by (rule g(3))
  show "normalizeWeights64 items = map (\<lambda>x. (Fin (fl64 (weight x / T)), item x)) items"
    by (rule g(4))
  show "\<bar>sum_list (map (\<lambda>x. fl64 (weight x / T)) items) - 1\<bar>
            \<le> (3 * real (length items) + 2) / 2 ^ 53"
    by (rule g(5))
next
  show "total64 PRIZES = Fin 100" unfolding total64_def by (rule total64_PRIZES)
  show "normalizeWeights64 PRIZES =
       [ (Fin (3891110078048109 / 4503599627370496), NOTHING),
         (Fin (1 / 8), NFT ''Elementals NFT''),
         (Fin (5764607523034235 / 576460752303423488), SOL 500000000 ''0.5 SOL''),
         (Fin (1152921504606847 / 1152921504606846976), SOL 2500000000 ''2.5 SOL'') ]"
    by (rule normalizeWeights64_PRIZES)
  show "list_all2 (\<lambda>p q. case p of Fin v \<Rightarrow> \<bar>v - q\<bar> \<le> 1 / 2 ^ 53 | _ \<Rightarrow> False)
        (map fst (normalizeWeights64 PRIZES)) (map fst (normalizeWeights PRIZES))"
    unfolding normalizeWeights64_PRIZES normalize_PRIZES by simp
qed

theorem normalizeWeights64_tolerance_witness:
  "PRIZES_doubles \<noteq> [] \<and> length PRIZES_doubles \<le> 2 ^ 52
   \<and> list_all (\<lambda>x. is_double (weight x) \<and> 0 < weight x) PRIZES_doubles
   \<and> total64 PRIZES_doubles = Fin 100
   \<and> normalizeWeights64 PRIZES_doubles =
       map (\<lambda>x. (Fin (fl64 (weight x / 100)), item x)) PRIZES_doubles
   \<and> normalizeWeights64 PRIZES_doubles = normalizeWeights64 PRIZES
   \<and> \<bar>sum_list (map (\<lambda>x. fl64 (weight x / 100)) PRIZES_doubles) - 1\<bar> \<le> 14 / 2 ^ 53"
proof -
  have ne: "PRIZES_doubles \<noteq> []" and len: "length PRIZES_doubles \<le> 2 ^ 52"
    by (simp_all add: PRIZES_doubles_def)
  have pos: "\<forall>x \<in> set PRIZES_doubles. is_double (weight x) \<and> 0 < weight x"
    by (simp add: PRIZES_doubles_def PRIZES_doubles_weights)
  note t = normalizeWeights64_tolerance [of PRIZES_doubles 100]
  from t ne len pos total64_PRIZES_doubles
  have n: "normalizeWeights64 PRIZES_doubles =
       map (\<lambda>x. (Fin (fl64 (weight x / 100)), item x)) PRIZES_doubles"
    and s: "\<bar>sum_list (map (\<lambda>x. fl64 (weight x / 100)) PRIZES_doubles) - 1\<bar>
            \<le> (3 * real (length PRIZES_doubles) + 2) / 2 ^ 53"
    by blast+
  from t have "normalizeWeights64 PRIZES =
       [ (Fin (3891110078048109 / 4503599627370496), NOTHING),
         (Fin (1 / 8), NFT ''Elementals NFT''),
         (Fin (5764607523034235 / 576460752303423488), SOL 500000000 ''0.5 SOL''),
         (Fin (1152921504606847 / 1152921504606846976), SOL 2500000000 ''2.5 SOL'') ]"
    by blast
  moreover have "map (\<lambda>x. (Fin (fl64 (weight x / 100)), item x)) PRIZES_doubles =
       [ (Fin (3891110078048109 / 4503599627370496), NOTHING),
         (Fin (1 / 8), NFT ''Elementals NFT''),
         (Fin (5764607523034235 / 576460752303423488), SOL 500000000 ''0.5 SOL''),
         (Fin (1152921504606847 / 1152921504606846976), SOL 2500000000 ''2.5 SOL'') ]"
    unfolding PRIZES_doubles_def
    by (simp only: list.map Weighted.simps fl64_p1 fl64_p2 fl64_p3 fl64_p4)
  ultimately have e: "normalizeWeights64 PRIZES_doubles = normalizeWeights64 PRIZES"
    using n by simp
  have "(3 * real (length PRIZES_doubles) + 2) / 2 ^ 53 = 14 / 2 ^ 53"
    by (simp add: PRIZES_doubles_def)
  with s have s': "\<bar>sum_list (map (\<lambda>x. fl64 (weight x / 100)) PRIZES_doubles) - 1\<bar>
      \<le> 14 / 2 ^ 53" by (simp only:)
  from ne len pos total64_PRIZES_doubles n e s' show ?thesis
    by (simp only: list_all_iff simp_thms)
qed

lemma pw_m53: "(2 powi (- 53) :: real) = 1 / 2 ^ 53"
proof -
  have "(2 powi (- 53) :: real) = inverse (2 powi 53)" by (rule power_int_minus)
  also have "\<dots> = 1 / 2 ^ 53" by (simp add: inverse_eq_divide)
  finally show ?thesis .
qed

lemma pw_m59: "(2 powi (- 59) :: real) = 1 / 2 ^ 59"
proof -
  have "(2 powi (- 59) :: real) = inverse (2 powi 59)" by (rule power_int_minus)
  also have "\<dots> = 1 / 2 ^ 59" by (simp add: inverse_eq_divide)
  finally show ?thesis .
qed

lemma double_unit_form:
  assumes f: "fl64 r = r" and lo: "1 / 2 \<le> r" and hi: "r < 1"
  shows "\<exists>k :: int. r = of_int k / 2 ^ 53"
proof -
  from lo have r0: "r \<noteq> 0" and ar: "\<bar>r\<bar> = r" by simp_all
  have "(2 powi (- 1022) :: real) \<le> 2 powi (- 1)" by (rule pw_le) simp
  also have "\<dots> = 1 / 2" by simp
  finally have n: "2 powi (- 1022) \<le> \<bar>r\<bar>" using lo ar by simp
  from ulp_exp_normal [OF n] hi ar have "(2 powi (ulp_exp r + 52) :: real) < 2 powi 0" by simp
  then have a: "ulp_exp r + 52 < 0" by (rule pw_lt_cancel)
  have "(1 :: real) \<le> 2 powi 2200" using pw_le [of 0 2200] by simp
  with hi ar have "\<bar>r\<bar> < 2 powi 2200" by linarith
  from ulp_exp_upper [OF r0 this] lo ar have "(2 powi (- 1) :: real) < 2 powi (ulp_exp r + 53)"
    by simp
  then have b: "- 1 < ulp_exp r + 53" by (rule pw_lt_cancel)
  from a b have ue: "ulp_exp r = - 53" by linarith
  from fl64_form [OF r0] f
  have "r = of_int (round_half_even (r / 2 powi ulp_exp r)) * 2 powi (- 53)"
    by (simp only: ue)
  then have "r = of_int (round_half_even (r / 2 powi ulp_exp r)) / 2 ^ 53"
    by (simp only: pw_m53) simp
  then show ?thesis ..
qed

lemma js_sub_exact:
  assumes x: "a - b = of_int m * 2 powi E" and m: "\<bar>m\<bar> < 2 ^ 53" and E: "- 1074 \<le> E"
    and u: "\<bar>a - b\<bar> \<le> 1"
  shows "js_sub (Fin a) (Fin b) = Fin (a - b)"
proof -
  from fl64_representable [OF x m E] have "fl64 (a - b) = a - b" .
  with u have "box (a - b) = Fin (a - b)" by (intro box_eval) simp_all
  then show ?thesis by (simp add: js_sub_def)
qed

lemma chooseLoop64_thresholds:
  assumes d: "is_double r" and lo: "0 \<le> r" and hi: "r < 1"
  shows "chooseLoop64 (normalizeWeights64 PRIZES) (Fin r) = Some
     (if r < 3891110078048109 / 4503599627370496 then NOTHING
      else if r < 3891110078048109 / 4503599627370496 + 1 / 8 then NFT ''Elementals NFT''
      else if r < 3891110078048109 / 4503599627370496 + 1 / 8
                    + 5764607523034235 / 576460752303423488
           then SOL 500000000 ''0.5 SOL''
      else SOL 2500000000 ''2.5 SOL'')"
proof (cases "r < 3891110078048109 / 4503599627370496")
  case True
  then show ?thesis
    by (simp add: normalizeWeights64_PRIZES)
next
  case False
  let ?P1 = "3891110078048109 / 4503599627370496 :: real"
  let ?P3 = "5764607523034235 / 576460752303423488 :: real"
  from d have f: "fl64 r = r" by (simp add: is_double_def)
  from False have "1 / 2 \<le> r" by simp
  from double_unit_form [OF f this hi] obtain k :: int where k: "r = of_int k / 2 ^ 53" ..
  from hi k have k1: "k < 9007199254740992" by simp
  from False k have k0: "7782220156096218 \<le> k" by simp
  have s1: "js_sub (Fin r) (Fin ?P1) = Fin (r - ?P1)"
  proof (rule js_sub_exact [of _ _ "k - 7782220156096218" "- 53"])
    show "r - ?P1 = of_int (k - 7782220156096218) * 2 powi (- 53)"
      unfolding pw_m53 k by simp
    show "\<bar>k - 7782220156096218\<bar> < 2 ^ 53" using k0 k1 by simp
    show "\<bar>r - ?P1\<bar> \<le> 1" using False hi by simp
  qed simp
  show ?thesis
  proof (cases "r < ?P1 + 1 / 8")
    case True
    with False s1 show ?thesis
      by (simp add: normalizeWeights64_PRIZES)
  next
    case F2: False
    from F2 k have k2: "8908120062938842 \<le> k" by simp
    have s2: "js_sub (Fin (r - ?P1)) (Fin (1 / 8)) = Fin (r - ?P1 - 1 / 8)"
    proof (rule js_sub_exact [of _ _ "k - 8908120062938842" "- 53"])
      show "r - ?P1 - 1 / 8 = of_int (k - 8908120062938842) * 2 powi (- 53)"
        unfolding pw_m53 k by simp
      show "\<bar>k - 8908120062938842\<bar> < 2 ^ 53" using k2 k1 by simp
      show "\<bar>r - ?P1 - 1 / 8\<bar> \<le> 1" using F2 hi by simp
    qed simp
    have s3: "js_sub (Fin (r - ?P1 - 1 / 8)) (Fin ?P3) = Fin (r - ?P1 - 1 / 8 - ?P3)"
    proof (rule js_sub_exact [of _ _ "(k - 8908120062938842) * 64 - 5764607523034235" "- 59"])
      show "r - ?P1 - 1 / 8 - ?P3
             = of_int ((k - 8908120062938842) * 64 - 5764607523034235) * 2 powi (- 59)"
        unfolding pw_m59 k by simp
      show "\<bar>(k - 8908120062938842) * 64 - 5764607523034235\<bar> < 2 ^ 53" using k2 k1 by simp
      show "\<bar>r - ?P1 - 1 / 8 - ?P3\<bar> \<le> 1" using F2 hi by simp
    qed simp
    have last: "r - ?P1 - 1 / 8 - ?P3 < 1152921504606847 / 1152921504606846976"
      using hi by simp
    from False F2 s1 s2 s3 last show ?thesis
      by (simp add: normalizeWeights64_PRIZES)
  qed
qed



lemma box_09: "box (9 / 10) = Fin (8106479329266893 / 9007199254740992)"
  by (rule box_eval) (simp_all add: fl64_eval)

lemma is_double_09: "is_double (8106479329266893 / 9007199254740992)"
  by (rule is_double_eval) (simp_all add: fl64_eval)

lemma choosePrize64_nft: "choosePrize64 (9 / 10) = NFT ''Elementals NFT''"
proof -
  have "chooseLoop64 (normalizeWeights64 PRIZES) (Fin (8106479329266893 / 9007199254740992))
          = Some (NFT ''Elementals NFT'')"
    by (simp only: chooseLoop64_thresholds [OF is_double_09]) simp
  then show ?thesis unfolding choosePrize64_def box_09 by simp
qed






section \<open>Properties of the admission window\<close>

lemma min_score_None: "min_score es = None \<longleftrightarrow> es = []"
  by (induction es rule: min_score.induct) (auto split: option.splits)

lemma min_score_Min: "es \<noteq> [] \<Longrightarrow> min_score es = Some (Min (snd ` set es))"
proof (induction es rule: min_score.induct)
  case 1
  then show ?case by simp
next
  case (2 m s es)
  show ?case
  proof (cases "es = []")
    case True
    then show ?thesis by simp
  next
    case False
    with 2 have "min_score es = Some (Min (snd ` set es))" by simp
    with False show ?thesis by simp
  qed
qed

lemma cooldown_secs:
  "ceil_div (COOLDOWN_MS env) 1000 * 1000 = COOLDOWN_MS env"
  by (simp add: ceil_div_def COOLDOWN_MS_def)

lemma cooldown_pos: "0 < COOLDOWN_HOURS env \<Longrightarrow> 0 < COOLDOWN_MS env"
  by (simp add: COOLDOWN_MS_def)


lemma opens_limit:
  "limit (fst (getOpensRemaining env R owner hc tok now)) =
     (if hc \<ge> SUPER_HOLDER_THRESHOLD then SUPER_HOLDER_LIMIT
      else if hc > 0 \<or> tok then HOLDER_LIMIT else 0)"
  unfolding getOpensRemaining_def Let_def by simp

lemma opens_used:
  "used (fst (getOpensRemaining env R owner hc tok now)) =
     zcard (zremrangebyscore R (openKey owner) 0 (now - COOLDOWN_MS env) now) (openKey owner) now"
  unfolding getOpensRemaining_def Let_def by simp

lemma opens_remaining:
  "remaining (fst (getOpensRemaining env R owner hc tok now)) =
     max 0 (limit (fst (getOpensRemaining env R owner hc tok now))
            - used (fst (getOpensRemaining env R owner hc tok now)))"
  unfolding getOpensRemaining_def Let_def by simp

lemma opens_store:
  "snd (getOpensRemaining env R owner hc tok now) =
     expire (zremrangebyscore R (openKey owner) 0 (now - COOLDOWN_MS env) now)
       (openKey owner) (ceil_div (COOLDOWN_MS env) 1000) now"
  unfolding getOpensRemaining_def Let_def by simp

lemma opens_cooldownMs:
  "cooldownMs (fst (getOpensRemaining env R owner hc tok now)) =
     (if remaining (fst (getOpensRemaining env R owner hc tok now)) = 0 then
        (case zrange_oldest (snd (getOpensRemaining env R owner hc tok now)) (openKey owner) now of
           Some oldestTimestamp \<Rightarrow> max 0 (COOLDOWN_MS env - (now - oldestTimestamp))
         | None \<Rightarrow> COOLDOWN_MS env)
      else 0)"
  unfolding getOpensRemaining_def Let_def by simp

lemma live_content_upd:
  "live t (Some e) = Some e \<Longrightarrow> live t (Some (e\<lparr>content := c\<rparr>)) = Some (e\<lparr>content := c\<rparr>)"
  by (auto simp: live_def split: option.splits if_splits)

lemma live_SomeD: "live t k = Some e \<Longrightarrow> k = Some e"
  by (auto simp: live_def split: option.splits if_splits)

lemma visible_zremrangebyscore:
  "visible (zremrangebyscore R key lo hi t) key t =
     filter (\<lambda>(m, s). \<not> (lo \<le> s \<and> s \<le> hi)) (visible R key t)"
proof (cases "live t (zsets R key)")
  case None
  then show ?thesis by (simp add: visible_def zremrangebyscore_def)
next
  case (Some e)
  then have "zsets R key = Some e" by (rule live_SomeD)
  with Some have "live t (Some e) = Some e" by simp
  then have "live t (Some (e\<lparr>content := c\<rparr>)) = Some (e\<lparr>content := c\<rparr>)" for c
    by (rule live_content_upd)
  with Some show ?thesis
    by (simp add: visible_def zremrangebyscore_def Let_def live_def)
qed

lemma zcard_visible: "zcard R key t = int (length (visible R key t))"
  by (simp add: zcard_def visible_def split: option.splits)

lemma zrange_oldest_visible: "zrange_oldest R key t = min_score (visible R key t)"
  by (simp add: zrange_oldest_def visible_def split: option.splits)

lemma visible_expire:
  "0 < seconds \<Longrightarrow> visible (expire R key seconds t) key t = visible R key t"
  by (auto simp: visible_def expire_def live_def split: option.splits if_splits)

lemma zsets_other_zremrangebyscore:
  "k \<noteq> key \<Longrightarrow> zsets (zremrangebyscore R key lo hi t) k = zsets R k"
  by (simp add: zremrangebyscore_def Let_def split: option.splits)

lemma zsets_other_expire:
  "k \<noteq> key \<Longrightarrow> zsets (expire R key seconds t) k = zsets R k"
  by (simp add: expire_def split: option.splits)

lemma zsets_other_zadd:
  "k \<noteq> key \<Longrightarrow> zsets (zadd R key sc m t) k = zsets R k"
  by (simp add: zadd_def split: option.splits)

lemma strings_zremrangebyscore: "strings (zremrangebyscore R key lo hi t) = strings R"
  by (simp add: zremrangebyscore_def Let_def split: option.splits)

lemma strings_expire: "strings (expire R key seconds t) = strings R"
  by (simp add: expire_def split: option.splits)

lemma strings_zadd: "strings (zadd R key sc m t) = strings R"
  by (simp add: zadd_def split: option.splits)

lemma cooldown_secs_pos: "0 < COOLDOWN_HOURS env \<Longrightarrow> 0 < ceil_div (COOLDOWN_MS env) 1000"
  by (simp add: ceil_div_def COOLDOWN_MS_def)

lemma visible_nonneg:
  "scores_nonneg R owner \<Longrightarrow> (m, s) \<in> set (visible R (openKey owner) t) \<Longrightarrow> 0 \<le> s"
  by (auto simp: scores_nonneg_def visible_def live_def list_all_iff
           split: option.splits if_splits)

lemma trimmed_is_active:
  assumes "scores_nonneg R owner"
  shows "filter (\<lambda>(m, s). \<not> (0 \<le> s \<and> s \<le> now - COOLDOWN_MS env)) (visible R (openKey owner) now)
         = active env R owner now"
  unfolding active_def
  by (rule filter_cong) (use assms in \<open>auto dest: visible_nonneg\<close>)

lemma used_counts_active:
  assumes "scores_nonneg R owner"
  shows "used (fst (getOpensRemaining env R owner hc tok now)) = int (length (active env R owner now))"
  by (simp only: opens_used zcard_visible visible_zremrangebyscore trimmed_is_active [OF assms])

lemma visible_after_evaluation:
  assumes "0 < COOLDOWN_HOURS env"
  shows "visible (snd (getOpensRemaining env R owner hc tok now)) (openKey owner) now =
         filter (\<lambda>(m, s). \<not> (0 \<le> s \<and> s \<le> now - COOLDOWN_MS env)) (visible R (openKey owner) now)"
  by (simp only: opens_store visible_expire [OF cooldown_secs_pos [OF assms]] visible_zremrangebyscore)

lemma cooldown_until_oldest:
  assumes nn: "scores_nonneg R owner" and pos: "0 < COOLDOWN_HOURS env"
    and rem: "remaining (fst (getOpensRemaining env R owner hc tok now)) = 0"
    and ne: "active env R owner now \<noteq> []"
  shows "cooldownMs (fst (getOpensRemaining env R owner hc tok now)) =
         COOLDOWN_MS env - (now - Min (snd ` set (active env R owner now)))"
proof -
  let ?A = "active env R owner now"
  have "zrange_oldest (snd (getOpensRemaining env R owner hc tok now)) (openKey owner) now
        = min_score ?A"
    by (simp only: zrange_oldest_visible visible_after_evaluation [OF pos] trimmed_is_active [OF nn])
  also from ne have "\<dots> = Some (Min (snd ` set ?A))" by (rule min_score_Min)
  finally have z: "zrange_oldest (snd (getOpensRemaining env R owner hc tok now)) (openKey owner) now
        = Some (Min (snd ` set ?A))" .
  from ne have "Min (snd ` set ?A) \<in> snd ` set ?A" by (intro Min_in) auto
  then have "now - COOLDOWN_MS env < Min (snd ` set ?A)"
    by (auto simp: active_def)
  with z rem show ?thesis by (subst opens_cooldownMs) simp
qed

lemma visible_expire_empty:
  "visible R key t = [] \<Longrightarrow> visible (expire R key seconds t) key t = []"
  by (auto simp: visible_def expire_def live_def split: option.splits if_splits)

lemma cooldown_full_without_active:
  assumes nn: "scores_nonneg R ow"
    and rem: "remaining (fst (getOpensRemaining env R ow hc tok now)) = 0"
    and emp: "active env R ow now = []"
  shows "cooldownMs (fst (getOpensRemaining env R ow hc tok now)) = COOLDOWN_MS env"
proof -
  have "visible (zremrangebyscore R (openKey ow) 0 (now - COOLDOWN_MS env) now) (openKey ow) now
        = []"
    by (simp only: visible_zremrangebyscore trimmed_is_active [OF nn] emp)
  then have "visible (snd (getOpensRemaining env R ow hc tok now)) (openKey ow) now = []"
    unfolding opens_store by (rule visible_expire_empty)
  then have "zrange_oldest (snd (getOpensRemaining env R ow hc tok now)) (openKey ow) now = None"
    by (simp add: zrange_oldest_visible)
  with rem show ?thesis by (subst opens_cooldownMs) simp
qed

lemma recordOpen_key:
  "zsets (recordOpen env R owner t u) (openKey owner) =
     Some \<lparr>content = (u, t) # filter (\<lambda>(m, s). m \<noteq> u) (visible R (openKey owner) t),
           expireAt = Some (t + COOLDOWN_MS env)\<rparr>"
  by (auto simp: recordOpen_def Let_def zadd_def expire_def visible_def live_def cooldown_secs
           split: option.splits if_splits)

lemma recorded_active_exactly_cooldown:
  "(u, t) \<in> set (active env (recordOpen env R owner t u) owner now) \<longleftrightarrow> now - t < COOLDOWN_MS env"
  by (auto simp: active_def visible_def recordOpen_key live_def)

lemma scores_nonneg_recordOpen:
  "scores_nonneg R ow \<Longrightarrow> 0 \<le> t \<Longrightarrow> scores_nonneg (recordOpen env R ow t u) ow"
  by (auto simp: scores_nonneg_def recordOpen_key list_all_iff visible_def live_def
           split: option.splits if_splits)

lemma scores_nonneg_getOpensRemaining:
  "scores_nonneg R ow \<Longrightarrow> scores_nonneg (snd (getOpensRemaining env R ow hc tok now)) ow"
  by (auto simp: scores_nonneg_def opens_store expire_def zremrangebyscore_def Let_def
                 live_def list_all_iff
           split: option.splits if_splits)

lemmas window_defs =
  getOpensRemaining_def recordOpen_def Let_def zremrangebyscore_def zcard_def expire_def
  zrange_oldest_def zadd_def live_def empty_redis_def COOLDOWN_MS_def ceil_div_def
  SUPER_HOLDER_THRESHOLD_def SUPER_HOLDER_LIMIT_def HOLDER_LIMIT_def visible_def active_def
  scores_nonneg_def openKey_def example_env_def

lemma example_rolling:
  fixes env :: Env and t0 :: int and u1 u2 ow :: string
  assumes env: "COOLDOWN_HOURS env = 24" and t0: "0 \<le> t0" and u: "u1 \<noteq> u2"
  defines "R1 \<equiv> recordOpen env (snd (getOpensRemaining env empty_redis ow 10 False t0)) ow t0 u1"
  defines "R2 \<equiv> recordOpen env (snd (getOpensRemaining env R1 ow 10 False (t0 + 3600000)))
                  ow (t0 + 3600000) u2"
  shows "fst (getOpensRemaining env R2 ow 10 False (t0 + 2 * 3600000))
           = \<lparr>remaining = 0, used = 2, limit = 2, cooldownMs = 22 * 3600000\<rparr>"
    and "remaining (fst (getOpensRemaining env
            (snd (getOpensRemaining env R2 ow 10 False (t0 + 2 * 3600000)))
            ow 10 False (t0 + 25 * 3600000))) = 2"
  using env t0 u
  unfolding R1_def R2_def
  by (simp_all add: getOpensRemaining_def recordOpen_def Let_def zremrangebyscore_def zcard_def
     expire_def zrange_oldest_def zadd_def live_def empty_redis_def COOLDOWN_MS_def ceil_div_def
     SUPER_HOLDER_THRESHOLD_def SUPER_HOLDER_LIMIT_def HOLDER_LIMIT_def)

text \<open>
  C7. The limit that \<open>getOpensRemaining\<close> computes is 2 from ten held items on, else 1
  when at least one item is held or a token threshold is met, else 0: the limit of the
  tier that the specification's rule gives (SuperHolder, Holder, none). In the handlers
  the token flag is the disjunction of the four token checks. Ten items give limit 2,
  five give limit 1, none and no token give limit 0.
\<close>

theorem limit_by_tier:
  "limit (fst (getOpensRemaining env R ow hc tok now)) =
     (if hc \<ge> 10 then 2 else if hc > 0 \<or> tok then 1 else 0)
   \<and> limit (fst (getOpensRemaining env R ow hc tok now)) = spec_limit (spec_tier hc tok)
   \<and> limit (fst (getOpensRemaining env R ow (holderCount w) (isTokenHolder w) now)) =
       (if holderCount w \<ge> 10 then 2
        else if holderCount w > 0 \<or> hasAccess (tokenCheck w) \<or> hasAccess (tokenCheck1 w)
                \<or> hasAccess (tokenCheck2 w) \<or> hasAccess (tokenCheck3 w) then 1
        else 0)
   \<and> limit (fst (getOpensRemaining env R ow 10 tok now)) = 2
   \<and> spec_tier 10 tok = SuperHolder
   \<and> limit (fst (getOpensRemaining env R ow 5 tok now)) = 1
   \<and> spec_tier 5 tok = Holder
   \<and> limit (fst (getOpensRemaining env R ow 0 False now)) = 0
   \<and> spec_tier 0 False = TierNone"
  by (simp add: opens_limit spec_tier_def isTokenHolder_def SUPER_HOLDER_THRESHOLD_def
        SUPER_HOLDER_LIMIT_def HOLDER_LIMIT_def)

text \<open>
  C8. The window is rolling. An open recorded at \<open>t\<close> is an active entry at \<open>now\<close>
  exactly while \<open>now - t\<close> is below the cooldown, whatever else the window holds; the
  number of opens that \<open>getOpensRemaining\<close> reports as used is the number of active
  entries; and when it reports no remaining open while an entry is active, the cooldown
  it reports is the cooldown minus the age of the oldest active entry (with no active
  entry, which needs limit 0, it reports the whole cooldown). With limit 2 and a
  cooldown of 24 hours, after opens at \<open>t0\<close> and one hour later, the evaluation two
  hours after \<open>t0\<close> leaves nothing remaining and reports 22 hours, and the evaluation
  25 hours after \<open>t0\<close> has opens remaining again.
\<close>

theorem rolling_window:
  fixes env :: Env and R :: Redis and ow u u1 u2 :: string and t now t0 hc :: int
  shows
  "((u, t) \<in> set (active env (recordOpen env R ow t u) ow now) \<longleftrightarrow> now - t < COOLDOWN_MS env)
   \<and> (scores_nonneg R ow \<longrightarrow>
        used (fst (getOpensRemaining env R ow hc tok now)) = int (length (active env R ow now)))
   \<and> (scores_nonneg R ow \<and> 0 < COOLDOWN_HOURS env
        \<and> remaining (fst (getOpensRemaining env R ow hc tok now)) = 0
        \<and> active env R ow now \<noteq> [] \<longrightarrow>
        cooldownMs (fst (getOpensRemaining env R ow hc tok now)) =
          COOLDOWN_MS env - (now - Min (snd ` set (active env R ow now))))
   \<and> (scores_nonneg R ow
        \<and> remaining (fst (getOpensRemaining env R ow hc tok now)) = 0
        \<and> active env R ow now = [] \<longrightarrow>
        cooldownMs (fst (getOpensRemaining env R ow hc tok now)) = COOLDOWN_MS env)
   \<and> (COOLDOWN_HOURS env = 24 \<and> 0 \<le> t0 \<and> u1 \<noteq> u2 \<longrightarrow>
        (let R1 = recordOpen env (snd (getOpensRemaining env empty_redis ow 10 False t0)) ow t0 u1;
             R2 = recordOpen env (snd (getOpensRemaining env R1 ow 10 False (t0 + 3600000)))
                    ow (t0 + 3600000) u2;
             third = getOpensRemaining env R2 ow 10 False (t0 + 2 * 3600000);
             later = getOpensRemaining env (snd third) ow 10 False (t0 + 25 * 3600000)
         in fst third = \<lparr>remaining = 0, used = 2, limit = 2, cooldownMs = 22 * 3600000\<rparr>
            \<and> 0 < remaining (fst later)))"
proof (intro conjI impI)
  show "(u, t) \<in> set (active env (recordOpen env R ow t u) ow now) \<longleftrightarrow> now - t < COOLDOWN_MS env"
    by (rule recorded_active_exactly_cooldown)
next
  assume "scores_nonneg R ow"
  then show "used (fst (getOpensRemaining env R ow hc tok now)) = int (length (active env R ow now))"
    by (rule used_counts_active)
next
  assume "scores_nonneg R ow \<and> 0 < COOLDOWN_HOURS env
        \<and> remaining (fst (getOpensRemaining env R ow hc tok now)) = 0
        \<and> active env R ow now \<noteq> []"
  then show "cooldownMs (fst (getOpensRemaining env R ow hc tok now)) =
          COOLDOWN_MS env - (now - Min (snd ` set (active env R ow now)))"
    by (simp add: cooldown_until_oldest)
next
  assume "scores_nonneg R ow
        \<and> remaining (fst (getOpensRemaining env R ow hc tok now)) = 0
        \<and> active env R ow now = []"
  then show "cooldownMs (fst (getOpensRemaining env R ow hc tok now)) = COOLDOWN_MS env"
    by (simp add: cooldown_full_without_active)
next
  assume a: "COOLDOWN_HOURS env = 24 \<and> 0 \<le> t0 \<and> u1 \<noteq> u2"
  then have e: "COOLDOWN_HOURS env = 24" and t: "0 \<le> t0" and n: "u1 \<noteq> u2" by simp_all
  show "(let R1 = recordOpen env (snd (getOpensRemaining env empty_redis ow 10 False t0)) ow t0 u1;
             R2 = recordOpen env (snd (getOpensRemaining env R1 ow 10 False (t0 + 3600000)))
                    ow (t0 + 3600000) u2;
             third = getOpensRemaining env R2 ow 10 False (t0 + 2 * 3600000);
             later = getOpensRemaining env (snd third) ow 10 False (t0 + 25 * 3600000)
         in fst third = \<lparr>remaining = 0, used = 2, limit = 2, cooldownMs = 22 * 3600000\<rparr>
            \<and> 0 < remaining (fst later))"
    unfolding Let_def
    by (simp only: example_rolling [OF e t n]) simp
qed

theorem rolling_window_witness:
  "scores_nonneg (recordOpen example_env empty_redis ''alice'' 1000 ''u1'') ''alice''
   \<and> 0 < COOLDOWN_HOURS example_env
   \<and> remaining (fst (getOpensRemaining example_env
         (recordOpen example_env empty_redis ''alice'' 1000 ''u1'') ''alice'' 1 False 5000)) = 0
   \<and> active example_env (recordOpen example_env empty_redis ''alice'' 1000 ''u1'') ''alice'' 5000
       = [(''u1'', 1000)]
   \<and> used (fst (getOpensRemaining example_env
         (recordOpen example_env empty_redis ''alice'' 1000 ''u1'') ''alice'' 1 False 5000)) = 1
   \<and> cooldownMs (fst (getOpensRemaining example_env
         (recordOpen example_env empty_redis ''alice'' 1000 ''u1'') ''alice'' 1 False 5000))
       = 86400000 - (5000 - 1000)
   \<and> COOLDOWN_HOURS example_env = 24 \<and> (0::int) \<le> 0 \<and> ''u1'' \<noteq> ''u2''"
proof -
  let ?R = "recordOpen example_env empty_redis ''alice'' 1000 ''u1''"
  let ?o = "fst (getOpensRemaining example_env ?R ''alice'' 1 False 5000)"
  have nn: "scores_nonneg ?R ''alice''" by (simp add: window_defs)
  have pos: "0 < COOLDOWN_HOURS example_env" by (simp add: example_env_def)
  have rem: "remaining ?o = 0" by (simp add: window_defs)
  have act: "active example_env ?R ''alice'' 5000 = [(''u1'', 1000)]" by (simp add: window_defs)
  have c: "COOLDOWN_MS example_env = 86400000" by (simp add: window_defs)
  note w = rolling_window [where env = example_env and R = ?R and ow = "''alice''" and hc = 1
      and tok = False and now = 5000 and t0 = 0 and ?u1.0 = "''u1''" and ?u2.0 = "''u2''"]
  from w nn have u: "used ?o = int (length (active example_env ?R ''alice'' 5000))" by blast
  from w nn pos rem act have cd: "cooldownMs ?o =
      COOLDOWN_MS example_env - (5000 - Min (snd ` set (active example_env ?R ''alice'' 5000)))"
    by simp
  from u act have u1: "used ?o = 1" by simp
  from cd act c have cd1: "cooldownMs ?o = 86400000 - (5000 - 1000)" by simp
  from nn pos rem act u1 cd1 show ?thesis by (simp add: example_env_def)
qed

text \<open>
  C10. When \<open>getOpensRemaining\<close> reports an open remaining, the cooldown it reports is
  0; it reports a cooldown other than 0 only with no open remaining.
\<close>

theorem cooldown_zero_when_remaining:
  "(0 < remaining (fst (getOpensRemaining env R ow hc tok now)) \<longrightarrow>
      cooldownMs (fst (getOpensRemaining env R ow hc tok now)) = 0)
   \<and> (cooldownMs (fst (getOpensRemaining env R ow hc tok now)) \<noteq> 0 \<longrightarrow>
      remaining (fst (getOpensRemaining env R ow hc tok now)) = 0)"
proof -
  let ?o = "fst (getOpensRemaining env R ow hc tok now)"
  have "remaining ?o \<noteq> 0 \<Longrightarrow> cooldownMs ?o = 0"
    by (subst opens_cooldownMs) simp
  then show ?thesis by auto
qed

theorem cooldown_zero_when_remaining_witness:
  "0 < remaining (fst (getOpensRemaining example_env empty_redis ''alice'' 1 False 5000))
   \<and> cooldownMs (fst (getOpensRemaining example_env empty_redis ''alice'' 1 False 5000)) = 0
   \<and> cooldownMs (fst (getOpensRemaining example_env
         (recordOpen example_env empty_redis ''alice'' 1000 ''u1'') ''alice'' 1 False 5000)) \<noteq> 0
   \<and> remaining (fst (getOpensRemaining example_env
         (recordOpen example_env empty_redis ''alice'' 1000 ''u1'') ''alice'' 1 False 5000)) = 0"
proof -
  let ?R = "recordOpen example_env empty_redis ''alice'' 1000 ''u1''"
  have a: "0 < remaining (fst (getOpensRemaining example_env empty_redis ''alice'' 1 False 5000))"
    by (simp add: window_defs)
  have b: "cooldownMs (fst (getOpensRemaining example_env ?R ''alice'' 1 False 5000)) \<noteq> 0"
    by (simp add: window_defs)
  from a cooldown_zero_when_remaining [of example_env empty_redis "''alice''" 1 False 5000]
  have c: "cooldownMs (fst (getOpensRemaining example_env empty_redis ''alice'' 1 False 5000)) = 0"
    by blast
  from b cooldown_zero_when_remaining [of example_env ?R "''alice''" 1 False 5000]
  have d: "remaining (fst (getOpensRemaining example_env ?R ''alice'' 1 False 5000)) = 0"
    by blast
  from a b c d show ?thesis by blast
qed

section \<open>Properties of the handlers\<close>

lemma openKey_inj: "openKey a = openKey b \<longleftrightarrow> a = b"
  by (simp add: openKey_def)

lemma visible_cong: "zsets R' k = zsets R k \<Longrightarrow> visible R' k t = visible R k t"
  by (simp add: visible_def)

lemma strings_after_evaluation:
  "strings (snd (getOpensRemaining env R ow hc tok now)) = strings R"
  by (simp add: opens_store strings_expire strings_zremrangebyscore)

lemma zsets_other_after_evaluation:
  "k \<noteq> openKey ow \<Longrightarrow> zsets (snd (getOpensRemaining env R ow hc tok now)) k = zsets R k"
  by (simp add: opens_store zsets_other_expire zsets_other_zremrangebyscore)

lemma active_after_evaluation:
  assumes "0 < COOLDOWN_HOURS env"
  shows "active env (snd (getOpensRemaining env R ow hc tok now)) x now = active env R x now"
proof (cases "x = ow")
  case True
  have ff: "filter (\<lambda>(m, s). now - COOLDOWN_MS env < s)
          (filter (\<lambda>(m, s). \<not> (0 \<le> s \<and> s \<le> now - COOLDOWN_MS env)) xs)
        = filter (\<lambda>(m, s). now - COOLDOWN_MS env < s) xs" for xs :: "(string \<times> int) list"
    by (induction xs) auto
  have "active env (snd (getOpensRemaining env R ow hc tok now)) ow now
        = filter (\<lambda>(m, s). now - COOLDOWN_MS env < s)
            (filter (\<lambda>(m, s). \<not> (0 \<le> s \<and> s \<le> now - COOLDOWN_MS env))
               (visible R (openKey ow) now))"
    unfolding active_def visible_after_evaluation [OF assms] ..
  also have "\<dots> = active env R ow now"
    unfolding active_def by (rule ff)
  finally show ?thesis unfolding True .
next
  case False
  then have "openKey x \<noteq> openKey ow" by (simp add: openKey_inj)
  then have "zsets (snd (getOpensRemaining env R ow hc tok now)) (openKey x) = zsets R (openKey x)"
    by (rule zsets_other_after_evaluation)
  then have "visible (snd (getOpensRemaining env R ow hc tok now)) (openKey x) now
             = visible R (openKey x) now"
    by (rule visible_cong)
  then show ?thesis unfolding active_def by simp
qed

lemma hasUsedSignature_cong:
  "strings R' = strings R \<Longrightarrow> hasUsedSignature R' sg t = hasUsedSignature R sg t"
  by (simp add: hasUsedSignature_def redis_get_def)

lemma evaluation_idempotent:
  assumes "0 < COOLDOWN_HOURS env"
  shows "fst (getOpensRemaining env (snd (getOpensRemaining env R ow hc tok now)) ow hc' tok' now)
       = fst (getOpensRemaining env R ow hc' tok' now)"
proof -
  let ?R' = "snd (getOpensRemaining env R ow hc tok now)"
  let ?keep = "\<lambda>(m::string, s::int). \<not> (0 \<le> s \<and> s \<le> now - COOLDOWN_MS env)"
  have v: "visible ?R' (openKey ow) now = filter ?keep (visible R (openKey ow) now)"
    by (rule visible_after_evaluation [OF assms])
  have ff: "filter ?keep (filter ?keep xs) = filter ?keep xs" for xs by simp
  have u: "used (fst (getOpensRemaining env ?R' ow hc' tok' now))
         = used (fst (getOpensRemaining env R ow hc' tok' now))"
    by (simp only: opens_used zcard_visible visible_zremrangebyscore v ff)
  have l: "limit (fst (getOpensRemaining env ?R' ow hc' tok' now))
         = limit (fst (getOpensRemaining env R ow hc' tok' now))"
    by (simp only: opens_limit)
  have r: "remaining (fst (getOpensRemaining env ?R' ow hc' tok' now))
         = remaining (fst (getOpensRemaining env R ow hc' tok' now))"
    by (simp only: opens_remaining u l)
  have z: "zrange_oldest (snd (getOpensRemaining env ?R' ow hc' tok' now)) (openKey ow) now
         = zrange_oldest (snd (getOpensRemaining env R ow hc' tok' now)) (openKey ow) now"
    by (simp only: zrange_oldest_visible visible_after_evaluation [OF assms] v ff)
  have c: "cooldownMs (fst (getOpensRemaining env ?R' ow hc' tok' now))
         = cooldownMs (fst (getOpensRemaining env R ow hc' tok' now))"
    by (simp only: opens_cooldownMs r z)
  from u l r c show ?thesis by (simp add: Opens.equality)
qed

lemma open_box_trace:
  "snd (snd (open_box env w req R)) =
     (if ownerError w \<noteq> None \<or> body_signature req = [] then []
      else if hasUsedSignature R (body_signature req) (tSig w) then [HasUsedSignature]
      else if remaining (fst (getOpensRemaining env R (body_owner req) (holderCount w)
                                (isTokenHolder w) (tEval w))) \<le> 0
        then [HasUsedSignature, HoldingsLookup, GetOpensRemaining]
      else if \<not> ok (verifyPaymentSignature env (txFetch w) (body_owner req) (OPEN_FEE_LAMPORTS env))
        then [HasUsedSignature, HoldingsLookup, GetOpensRemaining, VerifyPayment]
      else [HasUsedSignature, HoldingsLookup, GetOpensRemaining, VerifyPayment,
            MarkSignatureUsed, ChoosePrize, LogPrize (choosePrize (variate w))]
           @ snd (distribute env w (choosePrize (variate w)))
           @ (case fst (distribute env w (choosePrize (variate w))) of
                Inl msg \<Rightarrow> []
              | Inr v \<Rightarrow> [RecordOpen]))"
  by (auto simp: open_box_def Let_def case_prod_beta split: option.splits sum.splits)

lemma open_box_store:
  "fst (snd (open_box env w req R)) =
     (if ownerError w \<noteq> None \<or> body_signature req = [] then R
      else if hasUsedSignature R (body_signature req) (tSig w) then R
      else let G = getOpensRemaining env R (body_owner req) (holderCount w)
                     (isTokenHolder w) (tEval w)
        in if remaining (fst G) \<le> 0 then snd G
      else if \<not> ok (verifyPaymentSignature env (txFetch w) (body_owner req) (OPEN_FEE_LAMPORTS env))
        then snd G
      else (case fst (distribute env w (choosePrize (variate w))) of
              Inl msg \<Rightarrow> markSignatureUsed (snd G) (body_signature req) (tMark w)
            | Inr v \<Rightarrow> recordOpen env (markSignatureUsed (snd G) (body_signature req) (tMark w))
                         (body_owner req) (tRecord w) (uuid w)))"
  by (auto simp: open_box_def Let_def case_prod_beta split: option.splits sum.splits)

lemma distribute_calls:
  "snd (distribute env w prize) \<in>
     {[], [SolTransfer], [PickPrizeNft], [PickPrizeNft, TransferNft]}"
  by (auto simp: distribute_def split: PrizeKind.splits sum.splits option.splits)


lemma open_box_response_verification_failed:
  assumes "ownerError w = None" and "body_signature req \<noteq> []"
    and "\<not> hasUsedSignature R (body_signature req) (tSig w)"
    and "0 < remaining (fst (getOpensRemaining env R (body_owner req) (holderCount w)
                               (isTokenHolder w) (tEval w)))"
    and "\<not> ok (verifyPaymentSignature env (txFetch w) (body_owner req) (OPEN_FEE_LAMPORTS env))"
  shows "\<exists>msg. fst (open_box env w req R) = Failure 400 (''Payment verification failed: '' @ msg)"
  using assms by (simp add: open_box_def Let_def case_prod_beta)

lemmas handler_defs =
  open_box_def eligibility_def distribute_def verifyPaymentSignature_def
  pickPrizeNftFromTreasury_def eligibleRound_def hasUsedSignature_def markSignatureUsed_def
  redis_get_def redis_set_ex_def sigKey_def isTokenHolder_def at_index_def js_minus_def
  js_ge_def example_world_def example_request_def paid_tx_def example_store_def
  List.map_filter_def

lemma choosePrize_nft: "choosePrize (9 / 10) = NFT ''Elementals NFT''"
  unfolding choosePrize_def normalize_PRIZES by simp

lemma choosePrize_sol: "choosePrize (199 / 200) = SOL 500000000 ''0.5 SOL''"
  unfolding choosePrize_def normalize_PRIZES by simp

lemma remaining_pos_eligible:
  assumes "0 < remaining (fst (getOpensRemaining env R ow hc tok now))"
  shows "0 < hc \<or> tok"
proof (rule ccontr)
  assume "\<not> (0 < hc \<or> tok)"
  then have "limit (fst (getOpensRemaining env R ow hc tok now)) = 0"
    by (simp add: opens_limit SUPER_HOLDER_THRESHOLD_def)
  moreover have "0 \<le> used (fst (getOpensRemaining env R ow hc tok now))"
    by (simp add: opens_used zcard_visible)
  ultimately have "remaining (fst (getOpensRemaining env R ow hc tok now)) = 0"
    by (subst opens_remaining) simp
  with assms show False by simp
qed

lemma distribute_outcome:
  "fst (distribute env w prize) = Inr v \<Longrightarrow>
     (case prize of
        SOL lamports label \<Rightarrow> SolTransfer \<in> set (snd (distribute env w prize))
      | NFT label \<Rightarrow> PickPrizeNft \<in> set (snd (distribute env w prize))
      | NOTHING \<Rightarrow> True)"
  by (auto simp: distribute_def split: PrizeKind.splits sum.splits option.splits)

text \<open>
  C1, evaluated on the code. A paid request of a holder draws the NFT prize (variate 0.9)
  while the treasury holds no NFT of the prize collection. The inventory lookup returns
  nothing, no transfer is attempted, the prize is drawn once, and the response carries no
  transaction signature and no mint. The \<open>result\<close> of the response is nevertheless the
  drawn NFT prize, the value that \<open>logPrize\<close> was given too, and not \<open>NOTHING\<close>.
\<close>

theorem open_box_nft_without_inventory:
  "choosePrize (variate (example_world\<lparr>txFetch := TxFound paid_tx\<rparr>)) = NFT ''Elementals NFT''
   \<and> pickPrizeNftFromTreasury (treasuryNfts (example_world\<lparr>txFetch := TxFound paid_tx\<rparr>))
        (Legacy (PRIZE_COLLECTION_ADDRESS example_env))
        (pickVariate (example_world\<lparr>txFetch := TxFound paid_tx\<rparr>)) = None
   \<and> fst (open_box example_env (example_world\<lparr>txFetch := TxFound paid_tx\<rparr>)
             example_request empty_redis)
       = Json \<lparr>result = NFT ''Elementals NFT'', prizeTxSig = None, prizeMint = None,
               payment = \<lparr>pay_signature = ''sig1'', pay_lamportsToTreasury = Some 1000000,
                          pay_slot = Some 1, pay_blockTime = Some 2\<rparr>\<rparr>
   \<and> snd (snd (open_box example_env (example_world\<lparr>txFetch := TxFound paid_tx\<rparr>)
                  example_request empty_redis))
       = [HasUsedSignature, HoldingsLookup, GetOpensRemaining, VerifyPayment, MarkSignatureUsed,
          ChoosePrize, LogPrize (NFT ''Elementals NFT''), PickPrizeNft, RecordOpen]"
  by (simp add: handler_defs window_defs choosePrize_nft)

lemma strings_recordOpen: "strings (recordOpen env R ow t u) = strings R"
  by (simp add: recordOpen_def Let_def strings_expire strings_zadd)

lemma zsets_markSignatureUsed: "zsets (markSignatureUsed R sg t) = zsets R"
  by (simp add: markSignatureUsed_def redis_set_ex_def)

lemma hasUsedSignature_after_mark:
  assumes "sg \<noteq> []" and "tm \<le> t" and "t < tm + 604800000"
    and "strings R' = strings (markSignatureUsed R sg tm)"
  shows "hasUsedSignature R' sg t"
  using assms
  by (simp add: hasUsedSignature_def redis_get_def markSignatureUsed_def redis_set_ex_def live_def)

lemma recorded_visible:
  assumes "0 < COOLDOWN_HOURS env"
  shows "(u, t) \<in> set (visible (recordOpen env R ow t u) (openKey ow) t)"
  using cooldown_pos [OF assms] by (simp add: visible_def recordOpen_key live_def)

lemma open_box_response_settlement_failed:
  assumes "ChoosePrize \<in> set (snd (snd (open_box env w req R)))"
    and "fst (distribute env w (choosePrize (variate w))) = Inl msg"
  shows "fst (open_box env w req R) = Failure 500 msg"
  using assms
  by (auto simp: open_box_def Let_def case_prod_beta split: option.splits if_splits sum.splits)

lemma mark_iff_paid:
  "MarkSignatureUsed \<in> set (snd (snd (open_box env w req R))) \<longleftrightarrow> paid_path env w req R"
  using distribute_calls [of env w "choosePrize (variate w)"]
  by (auto simp: open_box_trace paid_path_def split: sum.splits)

lemma draw_iff_paid:
  "ChoosePrize \<in> set (snd (snd (open_box env w req R))) \<longleftrightarrow> paid_path env w req R"
  using distribute_calls [of env w "choosePrize (variate w)"]
  by (auto simp: open_box_trace paid_path_def split: sum.splits)

lemma record_iff:
  "RecordOpen \<in> set (snd (snd (open_box env w req R))) \<longleftrightarrow>
     paid_path env w req R \<and> (\<exists>v. fst (distribute env w (choosePrize (variate w))) = Inr v)"
  using distribute_calls [of env w "choosePrize (variate w)"]
  by (cases "fst (distribute env w (choosePrize (variate w)))")
     (auto simp: open_box_trace paid_path_def)

lemma store_paid:
  assumes "paid_path env w req R"
  shows "fst (snd (open_box env w req R)) =
     (case fst (distribute env w (choosePrize (variate w))) of
        Inl msg \<Rightarrow> markSignatureUsed
                     (snd (getOpensRemaining env R (body_owner req) (holderCount w)
                             (isTokenHolder w) (tEval w)))
                     (body_signature req) (tMark w)
      | Inr v \<Rightarrow> recordOpen env
                   (markSignatureUsed
                      (snd (getOpensRemaining env R (body_owner req) (holderCount w)
                              (isTokenHolder w) (tEval w)))
                      (body_signature req) (tMark w))
                   (body_owner req) (tRecord w) (uuid w))"
  using assms by (simp add: open_box_store paid_path_def Let_def)

lemma store_unpaid:
  assumes "\<not> paid_path env w req R"
  shows "fst (snd (open_box env w req R)) = R
       \<or> fst (snd (open_box env w req R)) =
           snd (getOpensRemaining env R (body_owner req) (holderCount w)
                  (isTokenHolder w) (tEval w))"
  using assms by (auto simp: open_box_store paid_path_def Let_def)

lemma claimed_after_draw:
  assumes "paid_path env w req R" and "tMark w \<le> t" and "t < tMark w + 604800000"
  shows "hasUsedSignature (fst (snd (open_box env w req R))) (body_signature req) t"
proof -
  let ?G = "getOpensRemaining env R (body_owner req) (holderCount w) (isTokenHolder w) (tEval w)"
  from assms(1) have sg: "body_signature req \<noteq> []" by (simp add: paid_path_def)
  have "strings (fst (snd (open_box env w req R)))
        = strings (markSignatureUsed (snd ?G) (body_signature req) (tMark w))"
    by (cases "fst (distribute env w (choosePrize (variate w)))")
       (simp_all add: store_paid [OF assms(1)] strings_recordOpen)
  with sg assms(2,3) show ?thesis by (rule hasUsedSignature_after_mark)
qed

text \<open>
  C2. In every run of \<open>POST /open\<close> the holdings lookup and the quota evaluation come
  before the payment verification, which runs only for a holder (of an item or of enough
  tokens) with an open remaining; the signature is marked used after the verification
  and only when it succeeded; the draw comes after the mark, so only for a paid request;
  the transfers come after the draw; and \<open>recordOpen\<close>, when it runs, is the last call of
  all, after the transfer or the inventory lookup that the drawn prize asks for.
  The store shows the same order. A run that marks finds the signature unused and leaves
  it used for the seven days that follow; a run that does not mark leaves the signature
  keys as they were. When the distribution of the drawn prize throws, the answer is a
  500 and the store left is the evaluated store with the signature marked and no open
  recorded; when it returns, the store left is that store with the open recorded on top,
  and the recorded entry is in the caller's window. A run that does not record leaves
  every window as the request found it or as the quota evaluation left it.
\<close>

theorem open_box_order:
  "precedes HoldingsLookup VerifyPayment (snd (snd (open_box env w req R)))
   \<and> precedes GetOpensRemaining VerifyPayment (snd (snd (open_box env w req R)))
   \<and> (VerifyPayment \<in> set (snd (snd (open_box env w req R))) \<longrightarrow>
        (0 < holderCount w \<or> isTokenHolder w)
        \<and> 0 < remaining (fst (getOpensRemaining env R (body_owner req) (holderCount w)
                                (isTokenHolder w) (tEval w))))
   \<and> precedes VerifyPayment MarkSignatureUsed (snd (snd (open_box env w req R)))
   \<and> (MarkSignatureUsed \<in> set (snd (snd (open_box env w req R))) \<longrightarrow>
        ok (verifyPaymentSignature env (txFetch w) (body_owner req) (OPEN_FEE_LAMPORTS env)))
   \<and> precedes MarkSignatureUsed ChoosePrize (snd (snd (open_box env w req R)))
   \<and> (ChoosePrize \<in> set (snd (snd (open_box env w req R))) \<longrightarrow>
        ok (verifyPaymentSignature env (txFetch w) (body_owner req) (OPEN_FEE_LAMPORTS env)))
   \<and> precedes ChoosePrize SolTransfer (snd (snd (open_box env w req R)))
   \<and> precedes ChoosePrize PickPrizeNft (snd (snd (open_box env w req R)))
   \<and> precedes PickPrizeNft TransferNft (snd (snd (open_box env w req R)))
   \<and> (RecordOpen \<in> set (snd (snd (open_box env w req R))) \<longrightarrow>
        last (snd (snd (open_box env w req R))) = RecordOpen
        \<and> RecordOpen \<notin> set (butlast (snd (snd (open_box env w req R))))
        \<and> (case choosePrize (variate w) of
              SOL lamports label \<Rightarrow> SolTransfer \<in> set (snd (snd (open_box env w req R)))
            | NFT label \<Rightarrow> PickPrizeNft \<in> set (snd (snd (open_box env w req R)))
            | NOTHING \<Rightarrow> True))
   \<and> (MarkSignatureUsed \<in> set (snd (snd (open_box env w req R))) \<longrightarrow>
        \<not> hasUsedSignature R (body_signature req) (tSig w)
        \<and> (\<forall>t. tMark w \<le> t \<and> t < tMark w + 604800000 \<longrightarrow>
               hasUsedSignature (fst (snd (open_box env w req R))) (body_signature req) t))
   \<and> (MarkSignatureUsed \<notin> set (snd (snd (open_box env w req R))) \<longrightarrow>
        strings (fst (snd (open_box env w req R))) = strings R)
   \<and> (ChoosePrize \<in> set (snd (snd (open_box env w req R))) \<longrightarrow>
        (case fst (distribute env w (choosePrize (variate w))) of
           Inl msg \<Rightarrow>
             fst (open_box env w req R) = Failure 500 msg
             \<and> RecordOpen \<notin> set (snd (snd (open_box env w req R)))
             \<and> fst (snd (open_box env w req R)) =
                 markSignatureUsed
                   (snd (getOpensRemaining env R (body_owner req) (holderCount w)
                           (isTokenHolder w) (tEval w)))
                   (body_signature req) (tMark w)
         | Inr v \<Rightarrow>
             RecordOpen \<in> set (snd (snd (open_box env w req R)))
             \<and> fst (snd (open_box env w req R)) =
                 recordOpen env
                   (markSignatureUsed
                      (snd (getOpensRemaining env R (body_owner req) (holderCount w)
                              (isTokenHolder w) (tEval w)))
                      (body_signature req) (tMark w))
                   (body_owner req) (tRecord w) (uuid w)))
   \<and> (RecordOpen \<in> set (snd (snd (open_box env w req R))) \<and> 0 < COOLDOWN_HOURS env \<longrightarrow>
        (uuid w, tRecord w)
          \<in> set (visible (fst (snd (open_box env w req R))) (openKey (body_owner req))
                   (tRecord w)))
   \<and> (RecordOpen \<notin> set (snd (snd (open_box env w req R))) \<longrightarrow>
        zsets (fst (snd (open_box env w req R))) = zsets R
        \<or> zsets (fst (snd (open_box env w req R))) =
            zsets (snd (getOpensRemaining env R (body_owner req) (holderCount w)
                          (isTokenHolder w) (tEval w))))"
proof -
  let ?tr = "snd (snd (open_box env w req R))"
  let ?prize = "choosePrize (variate w)"
  let ?calls = "snd (distribute env w ?prize)"
  have calls: "?calls \<in> {[], [SolTransfer], [PickPrizeNft], [PickPrizeNft, TransferNft]}"
    by (rule distribute_calls)
  have p1: "precedes HoldingsLookup VerifyPayment ?tr"
    by (simp add: open_box_trace)
  have p2: "precedes GetOpensRemaining VerifyPayment ?tr"
    by (simp add: open_box_trace)
  have p3: "VerifyPayment \<in> set ?tr \<longrightarrow>
        (0 < holderCount w \<or> isTokenHolder w)
        \<and> 0 < remaining (fst (getOpensRemaining env R (body_owner req) (holderCount w)
                                (isTokenHolder w) (tEval w)))"
  proof
    assume "VerifyPayment \<in> set ?tr"
    then have "0 < remaining (fst (getOpensRemaining env R (body_owner req) (holderCount w)
                                (isTokenHolder w) (tEval w)))"
      by (simp add: open_box_trace split: if_splits)
    then show "(0 < holderCount w \<or> isTokenHolder w)
        \<and> 0 < remaining (fst (getOpensRemaining env R (body_owner req) (holderCount w)
                                (isTokenHolder w) (tEval w)))"
      by (simp add: remaining_pos_eligible)
  qed
  have p4: "precedes VerifyPayment MarkSignatureUsed ?tr"
    by (simp add: open_box_trace)
  have p5: "MarkSignatureUsed \<in> set ?tr \<longrightarrow>
        ok (verifyPaymentSignature env (txFetch w) (body_owner req) (OPEN_FEE_LAMPORTS env))"
    by (simp add: open_box_trace)
  have p6: "precedes MarkSignatureUsed ChoosePrize ?tr"
    by (simp add: open_box_trace)
  have p7: "ChoosePrize \<in> set ?tr \<longrightarrow>
        ok (verifyPaymentSignature env (txFetch w) (body_owner req) (OPEN_FEE_LAMPORTS env))"
    by (simp add: open_box_trace)
  have p8: "precedes ChoosePrize SolTransfer ?tr"
    by (simp add: open_box_trace)
  have p9: "precedes ChoosePrize PickPrizeNft ?tr"
    by (simp add: open_box_trace)
  have p10: "precedes PickPrizeNft TransferNft ?tr"
    using calls by (auto simp: open_box_trace split: sum.splits)
  have p11: "RecordOpen \<in> set ?tr \<longrightarrow>
        last ?tr = RecordOpen \<and> RecordOpen \<notin> set (butlast ?tr)
        \<and> (case ?prize of
              SOL lamports label \<Rightarrow> SolTransfer \<in> set ?tr
            | NFT label \<Rightarrow> PickPrizeNft \<in> set ?tr
            | NOTHING \<Rightarrow> True)"
  proof
    assume r: "RecordOpen \<in> set ?tr"
    have nr: "RecordOpen \<notin> set ?calls" using calls by auto
    from r nr have "\<exists>v. fst (distribute env w ?prize) = Inr v"
      by (cases "fst (distribute env w ?prize)") (auto simp: open_box_trace split: if_splits)
    then obtain v where v: "fst (distribute env w ?prize) = Inr v" ..
    from r nr v have tr: "?tr = [HasUsedSignature, HoldingsLookup, GetOpensRemaining,
            VerifyPayment, MarkSignatureUsed, ChoosePrize, LogPrize ?prize] @ ?calls @ [RecordOpen]"
      by (auto simp: open_box_trace split: if_splits)
    from tr have l: "last ?tr = RecordOpen" by simp
    from tr have "butlast ?tr = [HasUsedSignature, HoldingsLookup, GetOpensRemaining,
            VerifyPayment, MarkSignatureUsed, ChoosePrize, LogPrize ?prize] @ ?calls"
      by (simp add: butlast_append)
    with nr have b: "RecordOpen \<notin> set (butlast ?tr)" by simp
    from distribute_outcome [OF v] tr
    have c: "(case ?prize of
              SOL lamports label \<Rightarrow> SolTransfer \<in> set ?tr
            | NFT label \<Rightarrow> PickPrizeNft \<in> set ?tr
            | NOTHING \<Rightarrow> True)"
      by (cases ?prize) simp_all
    from l b c show "last ?tr = RecordOpen \<and> RecordOpen \<notin> set (butlast ?tr)
        \<and> (case ?prize of
              SOL lamports label \<Rightarrow> SolTransfer \<in> set ?tr
            | NFT label \<Rightarrow> PickPrizeNft \<in> set ?tr
            | NOTHING \<Rightarrow> True)"
      by blast
  qed
  let ?R' = "fst (snd (open_box env w req R))"
  let ?G = "getOpensRemaining env R (body_owner req) (holderCount w) (isTokenHolder w) (tEval w)"
  let ?R2 = "markSignatureUsed (snd ?G) (body_signature req) (tMark w)"
  have q1: "MarkSignatureUsed \<in> set ?tr \<longrightarrow>
        \<not> hasUsedSignature R (body_signature req) (tSig w)
        \<and> (\<forall>t. tMark w \<le> t \<and> t < tMark w + 604800000 \<longrightarrow>
               hasUsedSignature ?R' (body_signature req) t)"
  proof
    assume "MarkSignatureUsed \<in> set ?tr"
    then have pd: "paid_path env w req R" by (simp add: mark_iff_paid)
    then have "\<not> hasUsedSignature R (body_signature req) (tSig w)"
      by (simp add: paid_path_def)
    with claimed_after_draw [OF pd]
    show "\<not> hasUsedSignature R (body_signature req) (tSig w)
        \<and> (\<forall>t. tMark w \<le> t \<and> t < tMark w + 604800000 \<longrightarrow>
               hasUsedSignature ?R' (body_signature req) t)"
      by blast
  qed
  have q2: "MarkSignatureUsed \<notin> set ?tr \<longrightarrow> strings ?R' = strings R"
  proof
    assume "MarkSignatureUsed \<notin> set ?tr"
    then have "\<not> paid_path env w req R" by (simp add: mark_iff_paid)
    from store_unpaid [OF this] show "strings ?R' = strings R"
      by (auto simp: strings_after_evaluation)
  qed
  have q3: "ChoosePrize \<in> set ?tr \<longrightarrow>
        (case fst (distribute env w ?prize) of
           Inl msg \<Rightarrow> fst (open_box env w req R) = Failure 500 msg
             \<and> RecordOpen \<notin> set ?tr \<and> ?R' = ?R2
         | Inr v \<Rightarrow> RecordOpen \<in> set ?tr
             \<and> ?R' = recordOpen env ?R2 (body_owner req) (tRecord w) (uuid w))"
  proof
    assume d: "ChoosePrize \<in> set ?tr"
    then have pd: "paid_path env w req R" by (simp add: draw_iff_paid)
    show "(case fst (distribute env w ?prize) of
           Inl msg \<Rightarrow> fst (open_box env w req R) = Failure 500 msg
             \<and> RecordOpen \<notin> set ?tr \<and> ?R' = ?R2
         | Inr v \<Rightarrow> RecordOpen \<in> set ?tr
             \<and> ?R' = recordOpen env ?R2 (body_owner req) (tRecord w) (uuid w))"
    proof (cases "fst (distribute env w ?prize)")
      case (Inl msg)
      with pd d show ?thesis
        by (simp add: store_paid record_iff open_box_response_settlement_failed)
    next
      case (Inr v)
      with pd show ?thesis by (simp add: store_paid record_iff)
    qed
  qed
  have q4: "RecordOpen \<in> set ?tr \<and> 0 < COOLDOWN_HOURS env \<longrightarrow>
        (uuid w, tRecord w) \<in> set (visible ?R' (openKey (body_owner req)) (tRecord w))"
  proof
    assume a: "RecordOpen \<in> set ?tr \<and> 0 < COOLDOWN_HOURS env"
    then obtain v where pd: "paid_path env w req R"
      and v: "fst (distribute env w ?prize) = Inr v"
      by (auto simp: record_iff)
    from a have pos: "0 < COOLDOWN_HOURS env" by simp
    from pd v have "?R' = recordOpen env ?R2 (body_owner req) (tRecord w) (uuid w)"
      by (simp add: store_paid)
    with recorded_visible [OF pos, of "uuid w" "tRecord w" ?R2 "body_owner req"]
    show "(uuid w, tRecord w) \<in> set (visible ?R' (openKey (body_owner req)) (tRecord w))"
      by simp
  qed
  have q5: "RecordOpen \<notin> set ?tr \<longrightarrow>
        zsets ?R' = zsets R \<or> zsets ?R' = zsets (snd ?G)"
  proof
    assume n: "RecordOpen \<notin> set ?tr"
    show "zsets ?R' = zsets R \<or> zsets ?R' = zsets (snd ?G)"
    proof (cases "paid_path env w req R")
      case True
      with n obtain msg where "fst (distribute env w ?prize) = Inl msg"
        by (cases "fst (distribute env w ?prize)") (auto simp: record_iff)
      with True show ?thesis by (simp add: store_paid zsets_markSignatureUsed)
    next
      case False
      from store_unpaid [OF this] show ?thesis by auto
    qed
  qed
  from p1 p2 p3 p4 p5 p6 p7 p8 p9 p10 p11 q1 q2 q3 q4 q5 show ?thesis by blast
qed

theorem open_box_order_witness:
  "snd (snd (open_box example_env
               (example_world\<lparr>txFetch := TxFound paid_tx, variate := 199 / 200\<rparr>)
               example_request empty_redis))
     = [HasUsedSignature, HoldingsLookup, GetOpensRemaining, VerifyPayment, MarkSignatureUsed,
        ChoosePrize, LogPrize (SOL 500000000 ''0.5 SOL''), SolTransfer, RecordOpen]
   \<and> 0 < remaining (fst (getOpensRemaining example_env empty_redis ''alice'' 10 False 108001000))
   \<and> ok (verifyPaymentSignature example_env (TxFound paid_tx) ''alice'' 1000000)
   \<and> last (snd (snd (open_box example_env
               (example_world\<lparr>txFetch := TxFound paid_tx, variate := 199 / 200\<rparr>)
               example_request empty_redis))) = RecordOpen
   \<and> \<not> hasUsedSignature empty_redis ''sig1'' 108001000
   \<and> hasUsedSignature
        (fst (snd (open_box example_env
               (example_world\<lparr>txFetch := TxFound paid_tx, variate := 199 / 200\<rparr>)
               example_request empty_redis))) ''sig1'' 108002000
   \<and> 0 < COOLDOWN_HOURS example_env
   \<and> (''u3'', 108001000)
        \<in> set (visible
             (fst (snd (open_box example_env
               (example_world\<lparr>txFetch := TxFound paid_tx, variate := 199 / 200\<rparr>)
               example_request empty_redis))) ''opens:alice'' 108001000)
   \<and> fst (distribute example_env
            (example_world\<lparr>txFetch := TxFound paid_tx, variate := 199 / 200,
                             solTransfer := Inl ''blockhash not found''\<rparr>)
            (SOL 500000000 ''0.5 SOL'')) = Inl ''blockhash not found''
   \<and> fst (open_box example_env
            (example_world\<lparr>txFetch := TxFound paid_tx, variate := 199 / 200,
                             solTransfer := Inl ''blockhash not found''\<rparr>)
            example_request empty_redis) = Failure 500 ''blockhash not found''
   \<and> RecordOpen \<notin> set (snd (snd (open_box example_env
            (example_world\<lparr>txFetch := TxFound paid_tx, variate := 199 / 200,
                             solTransfer := Inl ''blockhash not found''\<rparr>)
            example_request empty_redis)))
   \<and> hasUsedSignature
        (fst (snd (open_box example_env
            (example_world\<lparr>txFetch := TxFound paid_tx, variate := 199 / 200,
                             solTransfer := Inl ''blockhash not found''\<rparr>)
            example_request empty_redis))) ''sig1'' 108002000
   \<and> visible
        (fst (snd (open_box example_env
            (example_world\<lparr>txFetch := TxFound paid_tx, variate := 199 / 200,
                             solTransfer := Inl ''blockhash not found''\<rparr>)
            example_request empty_redis))) ''opens:alice'' 108001000 = []"
proof -
  let ?w = "example_world\<lparr>txFetch := TxFound paid_tx, variate := 199 / 200\<rparr>"
  let ?f = "example_world\<lparr>txFetch := TxFound paid_tx, variate := 199 / 200,
                             solTransfer := Inl ''blockhash not found''\<rparr>"
  let ?tr = "snd (snd (open_box example_env ?w example_request empty_redis))"
  let ?R' = "fst (snd (open_box example_env ?w example_request empty_redis))"
  let ?trf = "snd (snd (open_box example_env ?f example_request empty_redis))"
  let ?Rf = "fst (snd (open_box example_env ?f example_request empty_redis))"
  have tr: "?tr = [HasUsedSignature, HoldingsLookup, GetOpensRemaining, VerifyPayment,
        MarkSignatureUsed, ChoosePrize, LogPrize (SOL 500000000 ''0.5 SOL''), SolTransfer,
        RecordOpen]"
    by (simp add: handler_defs window_defs choosePrize_sol)
  have trf: "?trf = [HasUsedSignature, HoldingsLookup, GetOpensRemaining, VerifyPayment,
        MarkSignatureUsed, ChoosePrize, LogPrize (SOL 500000000 ''0.5 SOL''), SolTransfer]"
    by (simp add: handler_defs window_defs choosePrize_sol)
  have w: "body_owner example_request = ''alice''" "body_signature example_request = ''sig1''"
    "holderCount ?w = 10" "isTokenHolder ?w = False" "tEval ?w = 108001000"
    "txFetch ?w = TxFound paid_tx" "OPEN_FEE_LAMPORTS example_env = 1000000"
    "tSig ?w = 108001000" "tMark ?w = 108001000" "tRecord ?w = 108001000" "uuid ?w = ''u3''"
    "tMark ?f = 108001000" "variate ?f = 199 / 200" "holderCount ?f = 10"
    "isTokenHolder ?f = False" "tEval ?f = 108001000"
    "openKey ''alice'' = ''opens:alice''"
    by (simp_all add: handler_defs example_env_def openKey_def)
  have pos: "0 < COOLDOWN_HOURS example_env" by (simp add: example_env_def)
  have df: "fst (distribute example_env ?f (SOL 500000000 ''0.5 SOL'')) = Inl ''blockhash not found''"
    by (simp add: handler_defs)
  note o = open_box_order [of example_env ?w example_request empty_redis]
  note f = open_box_order [of example_env ?f example_request empty_redis]
  from tr have m: "VerifyPayment \<in> set ?tr" "MarkSignatureUsed \<in> set ?tr" "RecordOpen \<in> set ?tr"
    by simp_all
  from trf have mf: "MarkSignatureUsed \<in> set ?trf" "ChoosePrize \<in> set ?trf"
    by simp_all
  from o m(1) have a: "0 < remaining (fst (getOpensRemaining example_env empty_redis
        (body_owner example_request) (holderCount ?w) (isTokenHolder ?w) (tEval ?w)))"
    by blast
  from o m(2) have b: "ok (verifyPaymentSignature example_env (txFetch ?w)
        (body_owner example_request) (OPEN_FEE_LAMPORTS example_env))"
    by blast
  from o m(3) have c: "last ?tr = RecordOpen" by blast
  from o m(2) have d: "\<not> hasUsedSignature empty_redis (body_signature example_request) (tSig ?w)"
    by blast
  from o m(2) have "\<forall>t. tMark ?w \<le> t \<and> t < tMark ?w + 604800000 \<longrightarrow>
        hasUsedSignature ?R' (body_signature example_request) t"
    by blast
  then have e: "hasUsedSignature ?R' ''sig1'' 108002000" by (simp add: w)
  from o m(3) pos have g: "(uuid ?w, tRecord ?w)
        \<in> set (visible ?R' (openKey (body_owner example_request)) (tRecord ?w))"
    by blast
  from f mf(2) have "(case fst (distribute example_env ?f (choosePrize (variate ?f))) of
           Inl msg \<Rightarrow> fst (open_box example_env ?f example_request empty_redis) = Failure 500 msg
             \<and> RecordOpen \<notin> set ?trf
             \<and> ?Rf = markSignatureUsed
                   (snd (getOpensRemaining example_env empty_redis (body_owner example_request)
                           (holderCount ?f) (isTokenHolder ?f) (tEval ?f)))
                   (body_signature example_request) (tMark ?f)
         | Inr v \<Rightarrow> RecordOpen \<in> set ?trf
             \<and> ?Rf = recordOpen example_env
                   (markSignatureUsed
                      (snd (getOpensRemaining example_env empty_redis (body_owner example_request)
                              (holderCount ?f) (isTokenHolder ?f) (tEval ?f)))
                      (body_signature example_request) (tMark ?f))
                   (body_owner example_request) (tRecord ?f) (uuid ?f))"
    by blast
  with df have h: "fst (open_box example_env ?f example_request empty_redis)
        = Failure 500 ''blockhash not found''"
    and i: "RecordOpen \<notin> set ?trf"
    and j: "?Rf = markSignatureUsed
                   (snd (getOpensRemaining example_env empty_redis ''alice'' 10 False 108001000))
                   ''sig1'' 108001000"
    by (simp_all add: w choosePrize_sol)
  from f mf(1) have "\<forall>t. tMark ?f \<le> t \<and> t < tMark ?f + 604800000 \<longrightarrow>
        hasUsedSignature ?Rf (body_signature example_request) t"
    by blast
  then have k: "hasUsedSignature ?Rf ''sig1'' 108002000" by (simp add: w)
  have l: "visible ?Rf ''opens:alice'' 108001000 = []"
    unfolding j by (simp add: handler_defs window_defs)
  from tr a b c d e pos g df h i k l w show ?thesis by simp
qed

text \<open>
  C3, as the claim states it: a request whose payment verification fails leaves the
  persisted state unchanged. In \<open>example_store\<close> the window of \<open>alice\<close> holds an entry
  older than the cooldown; her request is rejected because the payment is not found, and
  the store it leaves has lost that entry, removed by the quota evaluation that runs
  before the verification.
\<close>

theorem open_box_state_counterexample:
  "\<not> ok (verifyPaymentSignature example_env (txFetch example_world) (body_owner example_request)
           (OPEN_FEE_LAMPORTS example_env))
   \<and> fst (open_box example_env example_world example_request example_store)
       = Failure 400 ''Payment verification failed: Transaction not found or not confirmed''
   \<and> visible example_store ''opens:alice'' 108001000 = [(''u2'', 82801000), (''u1'', 1000)]
   \<and> visible (fst (snd (open_box example_env example_world example_request example_store)))
        ''opens:alice'' 108001000 = [(''u2'', 82801000)]
   \<and> fst (snd (open_box example_env example_world example_request example_store)) \<noteq> example_store"
proof -
  let ?R' = "fst (snd (open_box example_env example_world example_request example_store))"
  have a: "\<not> ok (verifyPaymentSignature example_env (txFetch example_world)
             (body_owner example_request) (OPEN_FEE_LAMPORTS example_env))"
    by (simp add: handler_defs)
  have b: "fst (open_box example_env example_world example_request example_store)
       = Failure 400 ''Payment verification failed: Transaction not found or not confirmed''"
    by (simp add: handler_defs window_defs)
  have c: "visible example_store ''opens:alice'' 108001000 = [(''u2'', 82801000), (''u1'', 1000)]"
    by (simp add: handler_defs window_defs)
  have d: "visible ?R' ''opens:alice'' 108001000 = [(''u2'', 82801000)]"
    by (simp add: handler_defs window_defs)
  from c d have "?R' \<noteq> example_store" by auto
  with a b c d show ?thesis by blast
qed

text \<open>
  C3, amended. A request of \<open>POST /open\<close> whose payment verification fails is rejected
  with status 400; the calls made are the signature lookup, the holdings lookup, the
  quota evaluation and the verification, so there is no draw, no transfer and no
  \<open>recordOpen\<close>; the signature keys are unchanged, so the proof stays unclaimed; the
  active entries of every window are unchanged, and the windows of other owners are
  untouched. The quota evaluation may have removed expired entries of the caller's window
  and renewed the time to live of its key.
\<close>

theorem open_box_verification_failed:
  assumes own: "ownerError w = None" and sg: "body_signature req \<noteq> []"
    and fresh: "\<not> hasUsedSignature R (body_signature req) (tSig w)"
    and quota: "0 < remaining (fst (getOpensRemaining env R (body_owner req) (holderCount w)
                               (isTokenHolder w) (tEval w)))"
    and bad: "\<not> ok (verifyPaymentSignature env (txFetch w) (body_owner req) (OPEN_FEE_LAMPORTS env))"
    and pos: "0 < COOLDOWN_HOURS env"
  shows "(\<exists>msg. fst (open_box env w req R) = Failure 400 (''Payment verification failed: '' @ msg))
       \<and> strings (fst (snd (open_box env w req R))) = strings R
       \<and> (\<forall>s t. hasUsedSignature (fst (snd (open_box env w req R))) s t = hasUsedSignature R s t)
       \<and> snd (snd (open_box env w req R))
           = [HasUsedSignature, HoldingsLookup, GetOpensRemaining, VerifyPayment]
       \<and> (\<forall>x. active env (fst (snd (open_box env w req R))) x (tEval w) = active env R x (tEval w))
       \<and> (\<forall>k. k \<noteq> openKey (body_owner req) \<longrightarrow>
              zsets (fst (snd (open_box env w req R))) k = zsets R k)"
proof -
  let ?G = "getOpensRemaining env R (body_owner req) (holderCount w) (isTokenHolder w) (tEval w)"
  from own sg fresh quota bad have st: "fst (snd (open_box env w req R)) = snd ?G"
    by (simp add: open_box_store Let_def)
  have str: "strings (snd ?G) = strings R" by (rule strings_after_evaluation)
  from own sg fresh quota bad
  have tr: "snd (snd (open_box env w req R))
           = [HasUsedSignature, HoldingsLookup, GetOpensRemaining, VerifyPayment]"
    by (simp add: open_box_trace)
  show ?thesis
    unfolding st
    using open_box_response_verification_failed [OF own sg fresh quota bad] str tr
      active_after_evaluation [OF pos, of R "body_owner req" "holderCount w" "isTokenHolder w" "tEval w"]
      zsets_other_after_evaluation [of _ "body_owner req" env R "holderCount w" "isTokenHolder w" "tEval w"]
      hasUsedSignature_cong [OF str]
    by (simp add: st)
qed

theorem open_box_verification_failed_witness:
  "ownerError example_world = None \<and> body_signature example_request \<noteq> []
   \<and> \<not> hasUsedSignature example_store (body_signature example_request) (tSig example_world)
   \<and> 0 < remaining (fst (getOpensRemaining example_env example_store
            (body_owner example_request) (holderCount example_world)
            (isTokenHolder example_world) (tEval example_world)))
   \<and> \<not> ok (verifyPaymentSignature example_env (txFetch example_world)
            (body_owner example_request) (OPEN_FEE_LAMPORTS example_env))
   \<and> 0 < COOLDOWN_HOURS example_env
   \<and> strings (fst (snd (open_box example_env example_world example_request example_store)))
       = strings example_store
   \<and> snd (snd (open_box example_env example_world example_request example_store))
       = [HasUsedSignature, HoldingsLookup, GetOpensRemaining, VerifyPayment]
   \<and> active example_env
        (fst (snd (open_box example_env example_world example_request example_store)))
        ''alice'' (tEval example_world)
       = active example_env example_store ''alice'' (tEval example_world)"
proof -
  have h1: "ownerError example_world = None" by (simp add: handler_defs)
  have h2: "body_signature example_request \<noteq> []" by (simp add: handler_defs)
  have h3: "\<not> hasUsedSignature example_store (body_signature example_request)
              (tSig example_world)"
    by (simp add: handler_defs window_defs)
  have h4: "0 < remaining (fst (getOpensRemaining example_env example_store
            (body_owner example_request) (holderCount example_world)
            (isTokenHolder example_world) (tEval example_world)))"
    by (simp add: handler_defs window_defs)
  have h5: "\<not> ok (verifyPaymentSignature example_env (txFetch example_world)
            (body_owner example_request) (OPEN_FEE_LAMPORTS example_env))"
    by (simp add: handler_defs)
  have h6: "0 < COOLDOWN_HOURS example_env" by (simp add: example_env_def)
  from open_box_verification_failed [OF h1 h2 h3 h4 h5 h6] h1 h2 h3 h4 h5 h6
  show ?thesis by blast
qed

text \<open>
  C9. \<open>GET /eligibility\<close> leaves the active entries of every window as they were, leaves
  the signature keys as they were, and answers with the quota figures that an evaluation
  of the store before the call or of the store after the call gives at that instant.
\<close>

theorem eligibility_read_only:
  assumes pos: "0 < COOLDOWN_HOURS env"
  shows "(\<forall>x. active env (snd (eligibility env w ownerStr R)) x (tEval w) = active env R x (tEval w))
       \<and> strings (snd (eligibility env w ownerStr R)) = strings R
       \<and> fst (getOpensRemaining env (snd (eligibility env w ownerStr R)) ownerStr
                (holderCount w) (isTokenHolder w) (tEval w))
         = fst (getOpensRemaining env R ownerStr (holderCount w) (isTokenHolder w) (tEval w))
       \<and> (\<forall>j. fst (eligibility env w ownerStr R) = Json j \<longrightarrow>
              el_opens j = fst (getOpensRemaining env R ownerStr (holderCount w)
                                  (isTokenHolder w) (tEval w)))"
proof (cases "ownerError w")
  case None
  let ?G = "getOpensRemaining env R ownerStr (holderCount w) (isTokenHolder w) (tEval w)"
  from None have st: "snd (eligibility env w ownerStr R) = snd ?G"
    by (simp add: eligibility_def Let_def case_prod_beta)
  from None have js: "fst (eligibility env w ownerStr R) = Json j \<Longrightarrow> el_opens j = fst ?G" for j
    by (auto simp: eligibility_def Let_def case_prod_beta)
  show ?thesis
    unfolding st
    using active_after_evaluation [OF pos, of R ownerStr "holderCount w" "isTokenHolder w" "tEval w"]
      strings_after_evaluation [of env R ownerStr "holderCount w" "isTokenHolder w" "tEval w"]
      evaluation_idempotent [OF pos, of R ownerStr "holderCount w" "isTokenHolder w" "tEval w"
         "holderCount w" "isTokenHolder w"] js
    by simp
next
  case (Some msg)
  then show ?thesis by (simp add: eligibility_def)
qed

theorem eligibility_read_only_witness:
  "0 < COOLDOWN_HOURS example_env
   \<and> active example_env example_store ''alice'' (tEval example_world) = [(''u2'', 82801000)]
   \<and> active example_env (snd (eligibility example_env example_world ''alice'' example_store))
        ''alice'' (tEval example_world) = [(''u2'', 82801000)]
   \<and> strings (snd (eligibility example_env example_world ''alice'' example_store))
       = strings example_store
   \<and> fst (getOpensRemaining example_env
            (snd (eligibility example_env example_world ''alice'' example_store)) ''alice''
            (holderCount example_world) (isTokenHolder example_world) (tEval example_world))
       = \<lparr>remaining = 1, used = 1, limit = 2, cooldownMs = 0\<rparr>"
proof -
  have pos: "0 < COOLDOWN_HOURS example_env" by (simp add: example_env_def)
  have a: "active example_env example_store ''alice'' (tEval example_world) = [(''u2'', 82801000)]"
    by (simp add: handler_defs window_defs)
  have g: "fst (getOpensRemaining example_env example_store ''alice''
            (holderCount example_world) (isTokenHolder example_world) (tEval example_world))
       = \<lparr>remaining = 1, used = 1, limit = 2, cooldownMs = 0\<rparr>"
    by (simp add: handler_defs window_defs)
  note e = eligibility_read_only [OF pos, of example_world "''alice''" example_store]
  from e a have b: "active example_env
        (snd (eligibility example_env example_world ''alice'' example_store))
        ''alice'' (tEval example_world) = [(''u2'', 82801000)]"
    by simp
  from e have c: "strings (snd (eligibility example_env example_world ''alice'' example_store))
       = strings example_store"
    by blast
  from e g have d: "fst (getOpensRemaining example_env
            (snd (eligibility example_env example_world ''alice'' example_store)) ''alice''
            (holderCount example_world) (isTokenHolder example_world) (tEval example_world))
       = \<lparr>remaining = 1, used = 1, limit = 2, cooldownMs = 0\<rparr>"
    by simp
  from pos a b c d show ?thesis by blast
qed

end
